theory Spec2Isabelle
  imports Main
begin

section \<open>Strings and characters\<close>

text \<open>
  A JavaScript string is modelled as a \<open>string\<close> (a list of \<open>char\<close>). A \<open>char\<close> is read as
  the code point of the same number, so the model covers the strings whose code units lie in
  U+0000 .. U+00FF; \<open>length\<close> counts code units, as the \<open>length\<close> property does.
\<close>

definition code :: "char \<Rightarrow> nat" where
  "code c = of_char c"

definition is_lower :: "char \<Rightarrow> bool" where
  \<comment> \<open>the class \<open>a-z\<close>\<close>
  "is_lower c = (97 \<le> code c \<and> code c \<le> 122)"

definition is_digit :: "char \<Rightarrow> bool" where
  \<comment> \<open>the class \<open>0-9\<close>\<close>
  "is_digit c = (48 \<le> code c \<and> code c \<le> 57)"

definition is_space :: "char \<Rightarrow> bool" where
  \<comment> \<open>the class \<open>\s\<close>, and what \<open>trim\<close> removes: TAB, LF, VT, FF, CR, SPACE and NBSP
      (the members of the class below U+0100)\<close>
  "is_space c = (code c \<in> {9, 10, 11, 12, 13, 32, 160})"

definition hyphen :: char where
  "hyphen = CHR ''-''"

definition lower_char :: "char \<Rightarrow> char" where
  \<comment> \<open>the simple lower-case mapping of U+0000 .. U+00FF: A-Z, and U+00C0 .. U+00DE but U+00D7\<close>
  "lower_char c =
     (if (65 \<le> code c \<and> code c \<le> 90) \<or> (192 \<le> code c \<and> code c \<le> 222 \<and> code c \<noteq> 215)
      then char_of (code c + 32) else c)"

definition toLowerCase :: "string \<Rightarrow> string" where
  "toLowerCase s = map lower_char s"

definition trim :: "string \<Rightarrow> string" where
  \<comment> \<open>\<open>String.prototype.trim\<close>\<close>
  "trim s = rev (dropWhile is_space (rev (dropWhile is_space s)))"

section \<open>The Event model: slug derivation\<close>

text \<open>
  The four \<open>replace\<close> calls of the pre-save hook, each with a global regular expression:
  \<^verbatim>\<open>
    this.slug = this.title
      .toLowerCase()
      .replace(/[^a-z0-9\s-]/g, '')
      .replace(/\s+/g, '-')
      .replace(/-+/g, '-')
      .replace(/^--|-$/g, '')
      .trim()
  \<close>
\<close>

definition slug_char :: "char \<Rightarrow> bool" where
  \<comment> \<open>the complement of the class \<open>[^a-z0-9\s-]\<close>\<close>
  "slug_char c = (is_lower c \<or> is_digit c \<or> is_space c \<or> c = hyphen)"

definition strip_other :: "string \<Rightarrow> string" where
  \<comment> \<open>\<open>.replace(/[^a-z0-9\s-]/g, '')\<close>: every character outside the class is deleted\<close>
  "strip_other s = filter slug_char s"

function replace_runs :: "(char \<Rightarrow> bool) \<Rightarrow> string \<Rightarrow> string" where
  \<comment> \<open>\<open>.replace(/X+/g, '-')\<close> for a character class X: every maximal run becomes one hyphen\<close>
  "replace_runs P [] = []"
| "replace_runs P (c # cs) =
     (if P c then hyphen # replace_runs P (dropWhile P cs) else c # replace_runs P cs)"
  by pat_completeness auto
termination
  by (relation "measure (\<lambda>(P, s). length s)")
     (auto simp: less_Suc_eq_le length_dropWhile_le)

definition strip_edges :: "string \<Rightarrow> string" where
  \<comment> \<open>\<open>.replace(/^--|-$/g, '')\<close>: a leading pair of hyphens is deleted, and one trailing hyphen\<close>
  "strip_edges s =
     (let r = (if take 2 s = [hyphen, hyphen] then drop 2 s else s)
      in if r \<noteq> [] \<and> last r = hyphen then butlast r else r)"

definition slugify :: "string \<Rightarrow> string" where
  "slugify title =
     trim (strip_edges (replace_runs (\<lambda>c. c = hyphen)
       (replace_runs is_space (strip_other (toLowerCase title)))))"

text \<open>The property the slug is meant to have: lower-case letters, digits and single hyphens
  only, no hyphen at either end.\<close>

definition slug_letter :: "char \<Rightarrow> bool" where
  "slug_letter c = (is_lower c \<or> is_digit c \<or> c = hyphen)"

fun single_hyphens :: "string \<Rightarrow> bool" where
  "single_hyphens (a # b # s) = (\<not> (a = hyphen \<and> b = hyphen) \<and> single_hyphens (b # s))"
| "single_hyphens s = True"

definition clean_slug :: "string \<Rightarrow> bool" where
  "clean_slug s =
     (list_all slug_letter s
      \<and> single_hyphens s
      \<and> (s = [] \<or> (hd s \<noteq> hyphen \<and> last s \<noteq> hyphen)))"

section \<open>Regular expressions\<close>

text \<open>
  The patterns that the hooks pass to \<open>RegExp.prototype.test\<close> are anchored at both ends
  (\<open>^...$\<close>, no flags), so \<open>test\<close> decides whether the whole string is in the language of
  the pattern. A pattern is a term of \<open>regex\<close>; \<open>test\<close> runs it by derivatives.
\<close>

datatype regex =
    Nothing
  | Empty
  | Cls "char \<Rightarrow> bool"
  | Alt regex regex
  | Seq regex regex
  | Star regex

definition Lit :: "char \<Rightarrow> regex" where
  "Lit c = Cls (\<lambda>x. x = c)"

definition Plus :: "regex \<Rightarrow> regex" where
  \<comment> \<open>the quantifier \<open>+\<close>\<close>
  "Plus r = Seq r (Star r)"

definition Opt :: "regex \<Rightarrow> regex" where
  \<comment> \<open>the quantifier \<open>?\<close>\<close>
  "Opt r = Alt r Empty"

fun nullable :: "regex \<Rightarrow> bool" where
  "nullable Nothing = False"
| "nullable Empty = True"
| "nullable (Cls P) = False"
| "nullable (Alt r s) = (nullable r \<or> nullable s)"
| "nullable (Seq r s) = (nullable r \<and> nullable s)"
| "nullable (Star r) = True"

fun deriv :: "char \<Rightarrow> regex \<Rightarrow> regex" where
  "deriv c Nothing = Nothing"
| "deriv c Empty = Nothing"
| "deriv c (Cls P) = (if P c then Empty else Nothing)"
| "deriv c (Alt r s) = Alt (deriv c r) (deriv c s)"
| "deriv c (Seq r s) =
     (if nullable r then Alt (Seq (deriv c r) s) (deriv c s) else Seq (deriv c r) s)"
| "deriv c (Star r) = Seq (deriv c r) (Star r)"

definition test :: "regex \<Rightarrow> string \<Rightarrow> bool" where
  "test r s = nullable (foldl (\<lambda>q c. deriv c q) r s)"

text \<open>The language of a pattern, against which \<open>test\<close> is justified.\<close>

inductive_set star :: "string set \<Rightarrow> string set" for A :: "string set" where
  star_nil: "[] \<in> star A"
| star_app: "u \<in> A \<Longrightarrow> v \<in> star A \<Longrightarrow> u @ v \<in> star A"

definition conc :: "string set \<Rightarrow> string set \<Rightarrow> string set" where
  "conc A B = {u @ v | u v. u \<in> A \<and> v \<in> B}"

fun lang :: "regex \<Rightarrow> string set" where
  "lang Nothing = {}"
| "lang Empty = {[]}"
| "lang (Cls P) = {[c] | c. P c}"
| "lang (Alt r s) = lang r \<union> lang s"
| "lang (Seq r s) = conc (lang r) (lang s)"
| "lang (Star r) = star (lang r)"

definition in_range :: "char \<Rightarrow> char \<Rightarrow> char \<Rightarrow> bool" where
  \<comment> \<open>a range \<open>lo-hi\<close> of a character class\<close>
  "in_range lo hi c = (code lo \<le> code c \<and> code c \<le> code hi)"

definition timeRegex :: regex where
  \<comment> \<open>\<open>/^([01]?[0-9]|2[0-3]):[0-5][0-9]$/\<close>\<close>
  "timeRegex =
     Seq (Alt (Seq (Opt (Cls (\<lambda>c. c = CHR ''0'' \<or> c = CHR ''1'')))
                   (Cls (in_range CHR ''0'' CHR ''9'')))
              (Seq (Lit CHR ''2'') (Cls (in_range CHR ''0'' CHR ''3''))))
         (Seq (Lit CHR '':'')
              (Seq (Cls (in_range CHR ''0'' CHR ''5'')) (Cls (in_range CHR ''0'' CHR ''9''))))"

definition plain :: "char \<Rightarrow> bool" where
  \<comment> \<open>the class \<open>[^\s@]\<close>\<close>
  "plain c = (\<not> is_space c \<and> c \<noteq> CHR ''@'')"

definition emailRegex :: regex where
  \<comment> \<open>\<open>/^[^\s@]+@[^\s@]+\.[^\s@]+$/\<close>\<close>
  "emailRegex =
     Seq (Plus (Cls plain))
         (Seq (Lit CHR ''@'')
              (Seq (Plus (Cls plain)) (Seq (Lit CHR ''.'') (Plus (Cls plain)))))"

text \<open>The time formats in words: two digits of hours from 00 to 23, a colon, two digits of
  minutes from 00 to 59 (\<open>HH_MM\<close>); and the same with one digit of hours (\<open>H_MM\<close>).\<close>

definition digit_val :: "char \<Rightarrow> nat" where
  "digit_val c = code c - 48"

fun HH_MM :: "string \<Rightarrow> bool" where
  "HH_MM [h1, h2, c, m1, m2] =
     (is_digit h1 \<and> is_digit h2 \<and> c = CHR '':'' \<and> is_digit m1 \<and> is_digit m2
      \<and> 10 * digit_val h1 + digit_val h2 \<le> 23 \<and> 10 * digit_val m1 + digit_val m2 \<le> 59)"
| "HH_MM _ = False"

fun H_MM :: "string \<Rightarrow> bool" where
  "H_MM [h, c, m1, m2] =
     (is_digit h \<and> c = CHR '':'' \<and> is_digit m1 \<and> is_digit m2
      \<and> 10 * digit_val m1 + digit_val m2 \<le> 59)"
| "H_MM _ = False"

text \<open>The e-mail syntax in words: a local part, \<open>@\<close>, a domain, a dot and a suffix, the three
  parts non-empty and free of white space and of \<open>@\<close>.\<close>

definition email_shape :: "string \<Rightarrow> bool" where
  "email_shape s =
     (\<exists>u d t. s = u @ [CHR ''@''] @ d @ [CHR ''.''] @ t
        \<and> u \<noteq> [] \<and> d \<noteq> [] \<and> t \<noteq> [] \<and> list_all plain (u @ d @ t))"

section \<open>Dates\<close>

text \<open>
  The hook reads a date with \<open>new Date(this.date)\<close> and writes it back with
  \<open>toISOString().split('T')[0]\<close>. Both belong to the language, not to this repository; they
  are embedded from their definitions in ECMA-262 (Day Number and Time within Day, Year
  Number, Month Number, Date Number, MakeDay, TimeClip, Date.parse and
  Date.prototype.toISOString). A time value is a number of milliseconds since
  1970-01-01T00:00:00Z; \<open>None\<close> stands for NaN, the time value of an invalid date. The
  year, month and date functions take the day number \<open>Day t\<close> where ECMA-262 writes \<open>t\<close>.
\<close>

definition msPerDay :: int where
  "msPerDay = 86400000"

definition Day :: "int \<Rightarrow> int" where
  "Day t = t div msPerDay"

definition DaysInYear :: "int \<Rightarrow> int" where
  "DaysInYear y =
     (if y mod 4 \<noteq> 0 then 365 else if y mod 100 \<noteq> 0 then 366
      else if y mod 400 \<noteq> 0 then 365 else 366)"

definition DayFromYear :: "int \<Rightarrow> int" where
  "DayFromYear y =
     365 * (y - 1970) + (y - 1969) div 4 - (y - 1901) div 100 + (y - 1601) div 400"

text \<open>
  ECMA-262 defines the year of a time value as the largest \<open>y\<close> whose first day is not
  after it. \<open>year_search\<close> finds it by counting up from a year that is not too late; the
  facts that make the search terminate come first.
\<close>

lemma div_succ:
  fixes x k :: int
  assumes "0 < k"
  shows "(x + 1) div k = x div k + (if (x + 1) mod k = 0 then 1 else 0)"
proof (cases "(x + 1) mod k = 0")
  case True
  then obtain q where q: "x + 1 = k * q" by (auto simp: mod_eq_0_iff_dvd)
  then have "x = k * (q - 1) + (k - 1)" by (simp add: algebra_simps)
  then have "x div k = q - 1"
    using assms by (intro int_div_pos_eq [where r = "k - 1"]) simp_all
  with q True assms show ?thesis by simp
next
  case False
  have m: "0 \<le> x mod k" "x mod k < k" using assms by simp_all
  have "x mod k + 1 \<noteq> k"
  proof
    assume "x mod k + 1 = k"
    then have "(x + 1) mod k = 0" by (metis mod_add_left_eq mod_self)
    with False show False by simp
  qed
  with m have r: "x mod k + 1 < k" by simp
  have "x + 1 = k * (x div k) + (x mod k + 1)" by simp
  then have "(x + 1) div k = x div k"
    using m r by (intro int_div_pos_eq [where r = "x mod k + 1"]) simp_all
  with False show ?thesis by simp
qed

lemma mod_shift:
  fixes y :: int
  shows "(y - 1968) mod 4 = y mod 4" "(y - 1900) mod 100 = y mod 100"
    "(y - 1600) mod 400 = y mod 400"
proof -
  have "(y + 4 * (- 492)) mod 4 = y mod 4" by (rule mod_mult_self2)
  then show "(y - 1968) mod 4 = y mod 4" by simp
  have "(y + 100 * (- 19)) mod 100 = y mod 100" by (rule mod_mult_self2)
  then show "(y - 1900) mod 100 = y mod 100" by simp
  have "(y + 400 * (- 4)) mod 400 = y mod 400" by (rule mod_mult_self2)
  then show "(y - 1600) mod 400 = y mod 400" by simp
qed

lemma leap_dvd:
  fixes y :: int
  shows "y mod 400 = 0 \<Longrightarrow> y mod 100 = 0" "y mod 100 = 0 \<Longrightarrow> y mod 4 = 0"
proof -
  have h: "(100::int) dvd 400" "(4::int) dvd 100" by simp_all
  show "y mod 100 = 0" if "y mod 400 = 0"
  proof -
    from that have "400 dvd y" by (simp only: mod_eq_0_iff_dvd)
    with h(1) have "100 dvd y" by (rule dvd_trans)
    then show ?thesis by (simp only: mod_eq_0_iff_dvd)
  qed
  show "y mod 4 = 0" if "y mod 100 = 0"
  proof -
    from that have "100 dvd y" by (simp only: mod_eq_0_iff_dvd)
    with h(2) have "4 dvd y" by (rule dvd_trans)
    then show ?thesis by (simp only: mod_eq_0_iff_dvd)
  qed
qed

lemma DayFromYear_lin:
  fixes y :: int
  assumes "A' = A + a" "B' = B + b" "C' = C + c"
  shows "365 * (y + 1 - 1970) + A' - B' + C' = 365 * (y - 1970) + A - B + C + (365 + a - b + c)"
  using assms by simp

lemma DaysInYear_sum:
  "365 + (if y mod 4 = 0 then 1 else 0) - (if y mod 100 = 0 then 1 else 0)
          + (if y mod 400 = 0 then 1 else 0) = DaysInYear y"
proof -
  consider "y mod 4 \<noteq> 0" | "y mod 4 = 0" "y mod 100 \<noteq> 0" | "y mod 100 = 0" "y mod 400 \<noteq> 0"
    | "y mod 400 = 0" by metis
  then show ?thesis
  proof cases
    case 1
    with leap_dvd [of y] have "y mod 100 \<noteq> 0 \<and> y mod 400 \<noteq> 0" by metis
    with 1 show ?thesis by (simp only: DaysInYear_def if_True if_False not_False_eq_True not_True_eq_False refl; simp)
  next
    case 2
    with leap_dvd [of y] have "y mod 400 \<noteq> 0" by metis
    with 2 show ?thesis by (simp only: DaysInYear_def if_True if_False not_False_eq_True not_True_eq_False refl; simp)
  next
    case 3
    with leap_dvd [of y] have "y mod 4 = 0" by metis
    with 3 show ?thesis by (simp only: DaysInYear_def if_True if_False not_False_eq_True not_True_eq_False refl; simp)
  next
    case 4
    with leap_dvd [of y] have "y mod 100 = 0 \<and> y mod 4 = 0" by metis
    with 4 show ?thesis by (simp only: DaysInYear_def if_True if_False not_False_eq_True not_True_eq_False refl; simp)
  qed
qed

lemma DayFromYear_step: "DayFromYear (y + 1) = DayFromYear y + DaysInYear y"
proof -
  have a: "(y + 1 - 1969) div 4 = (y - 1969) div 4 + (if y mod 4 = 0 then 1 else 0)"
    using div_succ [of 4 "y - 1969"] mod_shift(1) [of y] by (simp add: algebra_simps)
  have b: "(y + 1 - 1901) div 100 = (y - 1901) div 100 + (if y mod 100 = 0 then 1 else 0)"
    using div_succ [of 100 "y - 1901"] mod_shift(2) [of y] by (simp add: algebra_simps)
  have c: "(y + 1 - 1601) div 400 = (y - 1601) div 400 + (if y mod 400 = 0 then 1 else 0)"
    using div_succ [of 400 "y - 1601"] mod_shift(3) [of y] by (simp add: algebra_simps)
  show ?thesis
    unfolding DayFromYear_def DaysInYear_sum [symmetric]
    by (rule DayFromYear_lin [OF a b c])
qed

lemma leap_choice:
  fixes a b c :: bool
  shows "365 \<le> (if a then 365 else if b then 366 else if c then 365 else (366::int))"
    and "(if a then 365 else if b then 366 else if c then 365 else (366::int)) \<le> 366"
  by simp_all

lemma DaysInYear_bounds: "365 \<le> DaysInYear y" "DaysInYear y \<le> 366"
  unfolding DaysInYear_def by (rule leap_choice)+

function year_search :: "int \<Rightarrow> int \<Rightarrow> int" where
  "year_search d y = (if DayFromYear (y + 1) \<le> d then year_search d (y + 1) else y)"
  by pat_completeness auto
termination
proof (relation "measure (\<lambda>(d, y). nat (d + 1 - DayFromYear (y + 1)))")
  show "wf (measure (\<lambda>(d, y). nat (d + 1 - DayFromYear (y + 1))))" by simp
next
  fix d y :: int
  assume le: "DayFromYear (y + 1) \<le> d"
  have "DayFromYear (y + 1 + 1) = DayFromYear (y + 1) + DaysInYear (y + 1)"
    by (rule DayFromYear_step)
  with DaysInYear_bounds(1) [of "y + 1"] le
  show "((d, y + 1), (d, y)) \<in> measure (\<lambda>(d, y). nat (d + 1 - DayFromYear (y + 1)))"
    by simp
qed

definition YearFromDay :: "int \<Rightarrow> int" where
  "YearFromDay d = year_search d (1970 + (if 0 \<le> d then d div 366 else d div 365))"

definition InLeapYear :: "int \<Rightarrow> int" where
  "InLeapYear y = (if DaysInYear y = 366 then 1 else 0)"

definition month_start :: "int \<Rightarrow> int \<Rightarrow> int" where
  "month_start m l =
     (if m = 0 then 0 else if m = 1 then 31 else if m = 2 then 59 + l
      else if m = 3 then 90 + l else if m = 4 then 120 + l else if m = 5 then 151 + l
      else if m = 6 then 181 + l else if m = 7 then 212 + l else if m = 8 then 243 + l
      else if m = 9 then 273 + l else if m = 10 then 304 + l else 334 + l)"

definition DaysInMonth :: "int \<Rightarrow> int \<Rightarrow> int" where
  "DaysInMonth m l =
     (if m = 1 then 28 + l else if m = 3 \<or> m = 5 \<or> m = 8 \<or> m = 10 then 30 else 31)"

definition month_of :: "int \<Rightarrow> int \<Rightarrow> int" where
  "month_of w l =
     (if w < 31 then 0 else if w < 59 + l then 1 else if w < 90 + l then 2
      else if w < 120 + l then 3 else if w < 151 + l then 4 else if w < 181 + l then 5
      else if w < 212 + l then 6 else if w < 243 + l then 7 else if w < 273 + l then 8
      else if w < 304 + l then 9 else if w < 334 + l then 10 else 11)"

definition DayWithinYear :: "int \<Rightarrow> int" where
  "DayWithinYear d = d - DayFromYear (YearFromDay d)"

definition MonthFromDay :: "int \<Rightarrow> int" where
  "MonthFromDay d = month_of (DayWithinYear d) (InLeapYear (YearFromDay d))"

definition DateFromDay :: "int \<Rightarrow> int" where
  "DateFromDay d =
     DayWithinYear d + 1 - month_start (MonthFromDay d) (InLeapYear (YearFromDay d))"

definition MakeDay :: "int \<Rightarrow> int \<Rightarrow> int \<Rightarrow> int" where
  "MakeDay y m dt = DayFromYear y + month_start m (InLeapYear y) + dt - 1"

definition TimeClip :: "int \<Rightarrow> int option" where
  "TimeClip t = (if \<bar>t\<bar> \<le> 8640000000000000 then Some t else None)"

text \<open>Decimal fields: \<open>pad n k\<close> writes \<open>k\<close>, which is below \<open>10 ^ n\<close> wherever it is used, with
  \<open>n\<close> digits; \<open>digits_val\<close> reads digits.\<close>

definition digit_char :: "nat \<Rightarrow> char" where
  "digit_char d = char_of (48 + d)"

fun pad :: "nat \<Rightarrow> nat \<Rightarrow> string" where
  "pad 0 k = []"
| "pad (Suc n) k = pad n (k div 10) @ [digit_char (k mod 10)]"

definition digits_val :: "string \<Rightarrow> nat" where
  "digits_val s = foldl (\<lambda>a c. 10 * a + digit_val c) 0 s"

definition year_str :: "int \<Rightarrow> string" where
  "year_str y =
     (if 0 \<le> y \<and> y \<le> 9999 then pad 4 (nat y)
      else (if y < 0 then ''-'' else ''+'') @ pad 6 (nat \<bar>y\<bar>))"

definition HourFromTime :: "int \<Rightarrow> int" where
  "HourFromTime t = (t div 3600000) mod 24"

definition MinFromTime :: "int \<Rightarrow> int" where
  "MinFromTime t = (t div 60000) mod 60"

definition SecFromTime :: "int \<Rightarrow> int" where
  "SecFromTime t = (t div 1000) mod 60"

definition msFromTime :: "int \<Rightarrow> int" where
  "msFromTime t = t mod 1000"

definition toISOString :: "int \<Rightarrow> string" where
  "toISOString t =
     year_str (YearFromDay (Day t)) @ ''-'' @ pad 2 (nat (MonthFromDay (Day t) + 1)) @ ''-''
       @ pad 2 (nat (DateFromDay (Day t)))
       @ ''T'' @ pad 2 (nat (HourFromTime t)) @ '':'' @ pad 2 (nat (MinFromTime t)) @ '':''
       @ pad 2 (nat (SecFromTime t)) @ ''.'' @ pad 3 (nat (msFromTime t)) @ ''Z''"

definition iso_date :: "int \<Rightarrow> string" where
  \<comment> \<open>\<open>toISOString().split('T')[0]\<close>\<close>
  "iso_date t = takeWhile (\<lambda>c. c \<noteq> CHR ''T'') (toISOString t)"

text \<open>
  \<open>Date.parse\<close> must read the date-time string format of ECMA-262 and may read anything
  else as the engine likes. \<open>parse_iso_date\<close> reads the date-only forms \<open>YYYY-MM-DD\<close> and
  \<open>+YYYYYY-MM-DD\<close>, \<open>-YYYYYY-MM-DD\<close> of a day that exists, as UTC; every other string is
  left to the parameter \<open>legacy\<close>, the engine's own reading (a time value or \<open>None\<close>).
\<close>

definition parse_year :: "string \<Rightarrow> int option" where
  "parse_year s =
     (if length s = 4 \<and> list_all is_digit s then Some (int (digits_val s))
      else if length s = 7 \<and> list_all is_digit (tl s) then
        (if hd s = CHR ''+'' then Some (int (digits_val (tl s)))
         else if hd s = CHR ''-'' \<and> digits_val (tl s) \<noteq> 0 then Some (- int (digits_val (tl s)))
         else None)
      else None)"

fun parse_month_day :: "string \<Rightarrow> (int \<times> int) option" where
  "parse_month_day [c1, m1, m2, c2, d1, d2] =
     (if c1 = CHR ''-'' \<and> c2 = CHR ''-'' \<and> is_digit m1 \<and> is_digit m2 \<and> is_digit d1 \<and> is_digit d2
      then Some (int (10 * digit_val m1 + digit_val m2), int (10 * digit_val d1 + digit_val d2))
      else None)"
| "parse_month_day _ = None"

definition parse_iso_date :: "string \<Rightarrow> int option" where
  "parse_iso_date s =
     (let n = length s in
      if n = 10 \<or> n = 13 then
        (case parse_year (take (n - 6) s) of
           None \<Rightarrow> None
         | Some y \<Rightarrow>
            (case parse_month_day (drop (n - 6) s) of
               None \<Rightarrow> None
             | Some (m, dt) \<Rightarrow>
                 if 1 \<le> m \<and> m \<le> 12 \<and> 1 \<le> dt \<and> dt \<le> DaysInMonth (m - 1) (InLeapYear y)
                 then TimeClip (MakeDay y (m - 1) dt * msPerDay) else None))
      else None)"

definition Date_parse :: "(string \<Rightarrow> int option) \<Rightarrow> string \<Rightarrow> int option" where
  "Date_parse legacy s =
     (case parse_iso_date s of
        Some t \<Rightarrow> Some t
      | None \<Rightarrow> (case legacy s of None \<Rightarrow> None | Some t \<Rightarrow> TimeClip t))"

text \<open>The date part that \<open>toISOString\<close> writes for a year, a month (from 1) and a date.\<close>

definition date_str :: "int \<Rightarrow> int \<Rightarrow> int \<Rightarrow> string" where
  "date_str y m dt = year_str y @ CHR ''-'' # pad 2 (nat m) @ CHR ''-'' # pad 2 (nat dt)"

section \<open>Schema options of a string path\<close>

text \<open>
  The options that the schema declares for the paths \<open>title\<close> and \<open>slug\<close>, with Mongoose's
  reading of them: \<open>lowercase\<close> and \<open>trim\<close> are setters, applied when the path is assigned;
  \<open>required\<close> and \<open>maxlength\<close> are validators, run on the stored value when the document is
  validated, each with its message.
\<close>

record string_options =
  required :: "string option"
  lowercase_option :: bool
  trim_option :: bool
  maxlength :: "(nat \<times> string) option"

definition EventSchema_title :: string_options where
  "EventSchema_title =
     \<lparr>required = Some ''Title is required'', lowercase_option = False, trim_option = True,
      maxlength = Some (100, ''Title cannot exceed 100 characters'')\<rparr>"

definition EventSchema_slug :: string_options where
  "EventSchema_slug =
     \<lparr>required = None, lowercase_option = True, trim_option = True, maxlength = None\<rparr>"

definition set_path :: "string_options \<Rightarrow> string option \<Rightarrow> string option" where
  "set_path opts v =
     map_option (\<lambda>s. (if trim_option opts then trim else id)
                        ((if lowercase_option opts then toLowerCase else id) s)) v"

definition falsy :: "string option \<Rightarrow> bool" where
  \<comment> \<open>\<open>!v\<close> for a string path: \<open>undefined\<close> or the empty string\<close>
  "falsy v = (v = None \<or> v = Some [])"

definition validate_path :: "string_options \<Rightarrow> string option \<Rightarrow> string list" where
  \<comment> \<open>the messages of the validators that fail\<close>
  "validate_path opts v =
     (case required opts of
        Some msg \<Rightarrow> if falsy v then [msg] else []
      | None \<Rightarrow> [])
     @ (case (maxlength opts, v) of
          (Some (n, msg), Some s) \<Rightarrow> if length s \<le> n then [] else [msg]
        | _ \<Rightarrow> [])"

definition create_title :: "string \<Rightarrow> string list" where
  \<comment> \<open>what validation reports for the \<open>title\<close> of a payload given to \<open>Event.create\<close>\<close>
  "create_title t = validate_path EventSchema_title (set_path EventSchema_title (Some t))"

section \<open>The Event model: the pre-save hook\<close>

text \<open>
  A document is a record of its paths; a path that is not set (\<open>undefined\<close>) is \<open>None\<close>.
  The timestamps \<open>createdAt\<close> and \<open>updatedAt\<close>, which no hook reads or writes, are left out.
  What Mongoose tracks about a document when it is saved is a \<open>tracking\<close>: whether the
  document is new, and the paths modified since it was loaded.
\<close>

record event =
  title :: "string option"
  slug :: "string option"
  description :: "string option"
  overview :: "string option"
  image_field :: "string option"
  venue :: "string option"
  location :: "string option"
  date :: "string option"
  time :: "string option"
  mode :: "string option"
  audience :: "string option"
  agenda :: "string list"
  organizer :: "string option"
  tags :: "string list"

record tracking =
  isNew :: bool
  modifiedPaths :: "string list"

definition isModified :: "tracking \<Rightarrow> string \<Rightarrow> bool" where
  "isModified tr path = (path \<in> set (modifiedPaths tr))"

datatype error = Error string | ValidationError string | TypeError

definition get :: "event \<Rightarrow> string \<Rightarrow> string option" where
  \<comment> \<open>\<open>this.get(field)\<close> for the paths that \<open>requiredFields\<close> names\<close>
  "get ev field =
     (if field = ''title'' then title ev
      else if field = ''description'' then description ev
      else if field = ''overview'' then overview ev
      else if field = ''image'' then image_field ev
      else if field = ''venue'' then venue ev
      else if field = ''location'' then location ev
      else if field = ''date'' then date ev
      else if field = ''time'' then time ev
      else if field = ''mode'' then mode ev
      else if field = ''audience'' then audience ev
      else if field = ''organizer'' then organizer ev
      else None)"

definition requiredFields :: "string list" where
  "requiredFields =
     [''title'', ''description'', ''overview'', ''image'', ''venue'', ''location'', ''date'',
      ''time'', ''mode'', ''audience'', ''organizer'']"

definition Date_new :: "(string \<Rightarrow> int option) \<Rightarrow> string option \<Rightarrow> int option" where
  \<comment> \<open>\<open>new Date(v).getTime()\<close>; \<open>new Date(undefined)\<close> is an invalid date\<close>
  "Date_new legacy v = (case v of None \<Rightarrow> None | Some s \<Rightarrow> Date_parse legacy s)"

definition derive_slug :: "tracking \<Rightarrow> event \<Rightarrow> error + event" where
  \<comment> \<open>reading \<open>toLowerCase\<close> of a title that is not set throws a TypeError; the assignment to
      \<open>this.slug\<close> goes through the setters of the path\<close>
  "derive_slug tr ev =
     (if isModified tr ''title'' \<or> isNew tr then
        (case title ev of
           None \<Rightarrow> Inl TypeError
         | Some t \<Rightarrow> Inr (ev\<lparr>slug := set_path EventSchema_slug (Some (slugify t))\<rparr>))
      else Inr ev)"

definition normalize_date :: "(string \<Rightarrow> int option) \<Rightarrow> tracking \<Rightarrow> event \<Rightarrow> error + event" where
  "normalize_date legacy tr ev =
     (if isModified tr ''date'' then
        (case Date_new legacy (date ev) of
           None \<Rightarrow> Inl (Error ''Invalid date format'')
         | Some t \<Rightarrow> Inr (ev\<lparr>date := Some (iso_date t)\<rparr>))
      else Inr ev)"

definition check_time :: "tracking \<Rightarrow> event \<Rightarrow> error + event" where
  \<comment> \<open>\<open>test\<close> converts its argument to a string: a time that is not set reads \<open>undefined\<close>\<close>
  "check_time tr ev =
     (if isModified tr ''time'' then
        (if \<not> test timeRegex (case time ev of None \<Rightarrow> ''undefined'' | Some s \<Rightarrow> s)
         then Inl (Error ''Time must be in HH:MM format'') else Inr ev)
      else Inr ev)"

definition check_required :: "event \<Rightarrow> error + event" where
  "check_required ev =
     (case find (\<lambda>field. falsy (get ev field)) requiredFields of
        Some field \<Rightarrow> Inl (Error (field @ '' is required''))
      | None \<Rightarrow> Inr ev)"

definition Event_pre_save :: "(string \<Rightarrow> int option) \<Rightarrow> tracking \<Rightarrow> event \<Rightarrow> error + event" where
  \<comment> \<open>\<open>EventSchema.pre('save', ...)\<close>: \<open>Inl\<close> is \<open>next(error)\<close> or a throw, \<open>Inr\<close> the document
      that \<open>next()\<close> lets through; \<open>legacy\<close> is the engine's reading of dates (see Dates)\<close>
  "Event_pre_save legacy tr ev =
     (case derive_slug tr ev of
        Inl e \<Rightarrow> Inl e
      | Inr ev1 \<Rightarrow>
         (case normalize_date legacy tr ev1 of
            Inl e \<Rightarrow> Inl e
          | Inr ev2 \<Rightarrow>
             (case check_time tr ev2 of
                Inl e \<Rightarrow> Inl e
              | Inr ev3 \<Rightarrow> check_required ev3)))"

section \<open>The Booking model\<close>

type_synonym objectId = nat

record booking =
  eventId :: objectId
  email :: "string option"

text \<open>An awaited promise either resolves to a value or rejects (the \<open>catch\<close> branch).\<close>

datatype 'a settled = Resolved 'a | Rejected

record store =
  events :: "(objectId \<times> event) list"
  bookings :: "booking list"
  reachable :: bool

definition Event_exists :: "store \<Rightarrow> objectId \<Rightarrow> bool settled" where
  \<comment> \<open>\<open>Event.exists({ _id: id })\<close>: a query that fails rejects\<close>
  "Event_exists st oid =
     (if reachable st then Resolved (map_of (events st) oid \<noteq> None) else Rejected)"

definition Booking_pre_save :: "(objectId \<Rightarrow> bool settled) \<Rightarrow> tracking \<Rightarrow> booking \<Rightarrow> error + booking" where
  "Booking_pre_save query tr b =
     (case (if isNew tr \<or> isModified tr ''eventId'' then
              (case query (eventId b) of
                 Resolved eventExists \<Rightarrow>
                   if \<not> eventExists then Some (Error ''Referenced event does not exist'') else None
               | Rejected \<Rightarrow> Some (ValidationError ''Invalid event ID format or database error''))
            else None) of
        Some e \<Rightarrow> Inl e
      | None \<Rightarrow>
         (case email b of
            None \<Rightarrow> Inl (Error ''Email is required'')
          | Some s \<Rightarrow>
             if s = [] then Inl (Error ''Email is required'')
             else if \<not> test emailRegex s then Inl (Error ''Invalid email format'')
             else Inr b))"

text \<open>
  The validators that the schema declares for \<open>email\<close>: \<open>required\<close> with the message
  \<open>Email is required\<close>, and \<open>validate\<close>, whose \<open>validator\<close> function tests the same pattern,
  with the message \<open>Invalid email format\<close>. Mongoose reports the first validator of a path
  that fails. The setters \<open>trim\<close> and \<open>lowercase\<close> of \<open>email\<close> were applied when the path was
  assigned: \<open>email b\<close> is the stored value. The \<open>required\<close> validator of \<open>eventId\<close> passes
  for every \<open>booking\<close>, whose \<open>eventId\<close> is set by its type. \<open>save\<close> validates the document
  before it runs the \<open>pre('save')\<close> hook, and writes only when both let the document through.
\<close>

definition BookingSchema_email_validator :: "string \<Rightarrow> bool" where
  "BookingSchema_email_validator email_value = test emailRegex email_value"

definition Booking_validate :: "booking \<Rightarrow> error option" where
  "Booking_validate b =
     (case email b of
        None \<Rightarrow> Some (ValidationError ''Email is required'')
      | Some s \<Rightarrow>
          if s = [] then Some (ValidationError ''Email is required'')
          else if \<not> BookingSchema_email_validator s
          then Some (ValidationError ''Invalid email format'')
          else None)"

definition Booking_save :: "store \<Rightarrow> tracking \<Rightarrow> booking \<Rightarrow> (error + booking) \<times> store" where
  "Booking_save st tr b =
     (case Booking_validate b of
        Some e \<Rightarrow> (Inl e, st)
      | None \<Rightarrow>
         (case Booking_pre_save (Event_exists st) tr b of
            Inl e \<Rightarrow> (Inl e, st)
          | Inr b' \<Rightarrow> (Inr b', st\<lparr>bookings := bookings st @ [b']\<rparr>)))"

section \<open>The connection manager\<close>

text \<open>
  \<open>MongoConnectionManager\<close> keeps two objects keyed by the connection string: the cached
  connections and the liveness flags. A connection is known by its handle. The driver is the
  list of the connections it has established, a handle being the position in that list.
\<close>

type_synonym uri = string
type_synonym handle = nat

record manager =
  connectionCache :: "uri \<rightharpoonup> handle"
  isConnected :: "uri \<rightharpoonup> bool"

record driver =
  established :: "uri list"

definition createConnection :: "uri \<Rightarrow> bool \<Rightarrow> driver \<Rightarrow> handle option \<times> driver" where
  \<comment> \<open>\<open>mongoose.createConnection\<close>: where the store answers, a new connection; \<open>None\<close> is the
      rejection that \<open>connect\<close> catches\<close>
  "createConnection u ok d =
     (if ok then (Some (length (established d)), d\<lparr>established := established d @ [u]\<rparr>)
      else (None, d))"

definition connect_lookup :: "uri \<Rightarrow> manager \<Rightarrow> handle option \<times> manager" where
  \<comment> \<open>the head of \<open>connect\<close>: a cached connection flagged live is returned, a cached
      connection not flagged live is dropped\<close>
  "connect_lookup u m =
     (case connectionCache m u of
        Some c \<Rightarrow>
          if isConnected m u = Some True then (Some c, m)
          else (None, m\<lparr>connectionCache := (connectionCache m)(u := None),
                         isConnected := (isConnected m)(u := None)\<rparr>)
      | None \<Rightarrow> (None, m))"

definition connect_settle :: "uri \<Rightarrow> handle option \<Rightarrow> manager \<Rightarrow> (error + handle) \<times> manager" where
  \<comment> \<open>the rest of \<open>connect\<close>, after the \<open>await\<close>: the new connection is cached and returned;
      the message of the error is in Chinese in the source and stands here in English\<close>
  "connect_settle u r m =
     (case r of
        Some c \<Rightarrow> (Inr c, m\<lparr>connectionCache := (connectionCache m)(u \<mapsto> c)\<rparr>)
      | None \<Rightarrow> (Inl (Error ''MongoDB connection failed''), m))"

text \<open>
  \<open>connect\<close> is an \<open>async\<close> function with one \<open>await\<close>, on the promise of
  \<open>mongoose.createConnection\<close>. \<open>connect_begin\<close> is what a call does before it waits (the
  look-up, then the request to the driver), \<open>connect_resume\<close> what it does when it goes on.
  Other code of the process runs between the two.
\<close>

datatype pending = Waiting "handle option" | Returned handle

definition connect_begin :: "uri \<Rightarrow> bool \<Rightarrow> manager \<times> driver \<Rightarrow> pending \<times> manager \<times> driver" where
  "connect_begin u ok w =
     (case connect_lookup u (fst w) of
        (Some c, m) \<Rightarrow> (Returned c, m, snd w)
      | (None, m) \<Rightarrow> (case createConnection u ok (snd w) of (r, d) \<Rightarrow> (Waiting r, m, d)))"

definition connect_resume :: "uri \<Rightarrow> pending \<Rightarrow> manager \<Rightarrow> (error + handle) \<times> manager" where
  "connect_resume u p m =
     (case p of Returned c \<Rightarrow> (Inr c, m) | Waiting r \<Rightarrow> connect_settle u r m)"

definition connect :: "uri \<Rightarrow> bool \<Rightarrow> manager \<times> driver \<Rightarrow> (error + handle) \<times> manager \<times> driver" where
  \<comment> \<open>a call of \<open>connect\<close> with nothing else running while it waits\<close>
  "connect u ok w =
     (case connect_begin u ok w of
        (p, m, d) \<Rightarrow> (case connect_resume u p m of (r, m') \<Rightarrow> (r, m', d)))"

text \<open>The listeners that \<open>connect\<close> puts on a connection.\<close>

definition on_connected :: "uri \<Rightarrow> manager \<Rightarrow> manager" where
  "on_connected u m = m\<lparr>isConnected := (isConnected m)(u \<mapsto> True)\<rparr>"

definition on_error :: "uri \<Rightarrow> manager \<Rightarrow> manager" where
  "on_error u m =
     m\<lparr>isConnected := (isConnected m)(u \<mapsto> False),
       connectionCache := (connectionCache m)(u := None)\<rparr>"

definition on_disconnected :: "uri \<Rightarrow> manager \<Rightarrow> manager" where
  "on_disconnected u m = m\<lparr>isConnected := (isConnected m)(u \<mapsto> False)\<rparr>"

definition getConnection :: "uri \<Rightarrow> manager \<Rightarrow> handle option" where
  "getConnection u m = connectionCache m u"

definition isConnectionAlive :: "uri \<Rightarrow> manager \<Rightarrow> bool" where
  "isConnectionAlive u m = (isConnected m u = Some True)"

text \<open>A cached entry is dead when its flag does not say that it is connected.\<close>

definition dead :: "uri \<Rightarrow> manager \<Rightarrow> bool" where
  "dead u m = (connectionCache m u \<noteq> None \<and> isConnected m u \<noteq> Some True)"

text \<open>
  Two calls of \<open>connect\<close> for the same connection string, the second made while the first
  waits: both begin before either goes on. The store answers both, and the calls go on in
  the order in which the driver settles their promises: the first call first when
  \<open>first_settles_first\<close>, the second call first otherwise. The result is what the first call
  returns, what the second returns, and the state after both.
\<close>

definition connect_twice ::
  "uri \<Rightarrow> bool \<Rightarrow> manager \<times> driver \<Rightarrow> ((error + handle) \<times> (error + handle)) \<times> manager \<times> driver" where
  "connect_twice u first_settles_first w =
     (case connect_begin u True w of
        (p1, m1, d1) \<Rightarrow>
          (case connect_begin u True (m1, d1) of
             (p2, m2, d2) \<Rightarrow>
               if first_settles_first then
                 (case connect_resume u p1 m2 of
                    (r1, m3) \<Rightarrow>
                      (case connect_resume u p2 m3 of (r2, m4) \<Rightarrow> ((r1, r2), m4, d2)))
               else
                 (case connect_resume u p2 m2 of
                    (r2, m3) \<Rightarrow>
                      (case connect_resume u p1 m3 of (r1, m4) \<Rightarrow> ((r1, r2), m4, d2)))))"

text \<open>The manager of a process that has not connected yet, and a driver with no connection.\<close>

definition no_connections :: "manager \<times> driver" where
  "no_connections =
     (\<lparr>connectionCache = Map.empty, isConnected = Map.empty\<rparr>, \<lparr>established = []\<rparr>)"

text \<open>A document of the kind the application stores, for the concrete cases below.\<close>

definition sample_event :: event where
  "sample_event =
     \<lparr>title = Some ''AWS re:Invent 2024'', slug = Some ''aws-reinvent-2024'',
      description = Some ''The annual cloud conference'', overview = Some ''Cloud'',
      image_field = Some ''/images/event1.png'', venue = Some ''Las Vegas Convention Center'',
      location = Some ''Las Vegas, NV'', date = Some ''2024-11-18'', time = Some ''09:00'',
      mode = Some ''offline'', audience = Some ''Developers'', agenda = [''Keynote''],
      organizer = Some ''AWS'', tags = [''cloud'']\<rparr>"

lemmas char_defs = code_def is_lower_def is_digit_def is_space_def hyphen_def lower_char_def
  char_of_def bit_Suc_0_iff

lemmas slug_defs = slugify_def toLowerCase_def strip_other_def slug_char_def strip_edges_def
  trim_def

section \<open>The slug of a title\<close>

text \<open>
  C1. The slug of every title has only lower-case letters, digits and single hyphens and no
  hyphen at either end. The hook does not achieve this: the last \<open>replace\<close> looks for two
  hyphens at the start, where by then at most one is left, so a leading hyphen stays. The
  title \<open>& Friends Meetup\<close> gets the slug \<open>-friends-meetup\<close>.
\<close>

theorem slug_leading_hyphen:
  "slugify ''& Friends Meetup'' = ''-friends-meetup''
   \<and> \<not> clean_slug (slugify ''& Friends Meetup'')
   \<and> derive_slug \<lparr>isNew = False, modifiedPaths = [''title'']\<rparr>
        (sample_event\<lparr>title := Some ''& Friends Meetup''\<rparr>)
      = Inr (sample_event\<lparr>title := Some ''& Friends Meetup'', slug := Some ''-friends-meetup''\<rparr>)"
  by (simp add: slug_defs clean_slug_def slug_letter_def char_defs derive_slug_def
      isModified_def set_path_def EventSchema_slug_def)

section \<open>The shape that every slug has\<close>

text \<open>
  All but the first character of the shape holds for every title: a slug has only lower-case
  letters, digits and hyphens, no two hyphens in a row, and no hyphen at its end; and the
  setters of the \<open>slug\<close> path leave it as it is.
\<close>

lemma set_replace_runs: "set (replace_runs P s) \<subseteq> insert hyphen {c \<in> set s. \<not> P c}"
proof (induction P s rule: replace_runs.induct)
  case (1 P)
  show ?case by simp
next
  case (2 P c cs)
  show ?case
  proof (cases "P c")
    case True
    with "2.IH"(1) have "set (replace_runs P (dropWhile P cs))
        \<subseteq> insert hyphen {c \<in> set (dropWhile P cs). \<not> P c}" by simp
    moreover have "set (dropWhile P cs) \<subseteq> set cs" by (auto dest: set_dropWhileD)
    ultimately show ?thesis using True by auto
  next
    case False
    with "2.IH"(2) show ?thesis by auto
  qed
qed

lemma replace_runs_hd:
  "s = [] \<or> \<not> P (hd s) \<Longrightarrow> replace_runs P s = [] \<or> hd (replace_runs P s) = hd s"
  by (cases s) auto

lemma single_hyphens_Cons:
  "single_hyphens (a # s) =
     ((a = hyphen \<longrightarrow> s = [] \<or> hd s \<noteq> hyphen) \<and> single_hyphens s)"
  by (cases s) auto

lemma single_replace_runs: "single_hyphens (replace_runs (\<lambda>c. c = hyphen) s)"
proof (induction "\<lambda>c. c = hyphen" s rule: replace_runs.induct)
  case 1
  show ?case by simp
next
  case (2 c cs)
  let ?P = "\<lambda>c. c = hyphen"
  show ?case
  proof (cases "c = hyphen")
    case True
    let ?r = "dropWhile ?P cs"
    have "replace_runs ?P ?r = [] \<or> hd (replace_runs ?P ?r) \<noteq> hyphen"
    proof (cases "?r = []")
      case True
      then have "replace_runs ?P ?r = replace_runs ?P []" by (simp only:)
      then show ?thesis by simp
    next
      case False
      then have n: "hd ?r \<noteq> hyphen" by (rule hd_dropWhile)
      then have "?r = [] \<or> \<not> ?P (hd ?r)" by simp
      then have "replace_runs ?P ?r = [] \<or> hd (replace_runs ?P ?r) = hd ?r"
        by (rule replace_runs_hd)
      with n show ?thesis by metis
    qed
    with True "2.hyps"(1) show ?thesis by (simp add: single_hyphens_Cons)
  next
    case False
    with "2.hyps"(2) show ?thesis by (simp add: single_hyphens_Cons)
  qed
qed

lemma single_hyphens_tl: "single_hyphens s \<Longrightarrow> single_hyphens (tl s)"
  by (cases s) (simp_all add: single_hyphens_Cons)

lemma single_hyphens_drop: "single_hyphens s \<Longrightarrow> single_hyphens (drop n s)"
proof (induction n arbitrary: s)
  case 0
  then show ?case by simp
next
  case (Suc n)
  then have "single_hyphens (drop n (tl s))" by (simp add: single_hyphens_tl)
  then show ?case by (simp add: drop_Suc)
qed

lemma single_hyphens_butlast:
  "single_hyphens s \<Longrightarrow>
     single_hyphens (butlast s)
     \<and> (s \<noteq> [] \<and> last s = hyphen \<longrightarrow> butlast s = [] \<or> last (butlast s) \<noteq> hyphen)"
proof (induction s rule: single_hyphens.induct)
  case (1 a b s)
  then show ?case by (cases s) (auto simp: single_hyphens_Cons)
qed simp_all

lemma dropWhile_none: "\<forall>c \<in> set s. \<not> P c \<Longrightarrow> dropWhile P s = s"
  by (cases s) simp_all

lemma trim_no_space:
  assumes "\<forall>c \<in> set s. \<not> is_space c"
  shows "trim s = s"
proof -
  from assms have "\<forall>c \<in> set (rev s). \<not> is_space c" by simp
  then have "dropWhile is_space (rev s) = rev s" by (rule dropWhile_none)
  moreover from assms have "dropWhile is_space s = s" by (rule dropWhile_none)
  ultimately show ?thesis by (simp add: trim_def)
qed

lemma slug_letter_no_space: "slug_letter c \<Longrightarrow> \<not> is_space c"
  by (auto simp: slug_letter_def char_defs)

lemma strip_edges_shape:
  assumes "single_hyphens s"
  shows "set (strip_edges s) \<subseteq> set s \<and> single_hyphens (strip_edges s)
    \<and> (strip_edges s = [] \<or> last (strip_edges s) \<noteq> hyphen)"
proof -
  define r where "r = (if take 2 s = [hyphen, hyphen] then drop 2 s else s)"
  have r: "set r \<subseteq> set s" "single_hyphens r"
    using assms by (auto simp: r_def single_hyphens_drop dest: in_set_dropD)
  have e: "strip_edges s = (if r \<noteq> [] \<and> last r = hyphen then butlast r else r)"
    by (simp add: strip_edges_def r_def)
  show ?thesis
  proof (cases "r \<noteq> [] \<and> last r = hyphen")
    case True
    with single_hyphens_butlast [OF r(2)] r(1) show ?thesis
      unfolding e by (auto dest: in_set_butlastD)
  next
    case False
    with r show ?thesis unfolding e by auto
  qed
qed

lemma slug_shape:
  "list_all slug_letter (slugify t) \<and> single_hyphens (slugify t)
   \<and> (slugify t = [] \<or> last (slugify t) \<noteq> hyphen)"
proof -
  define a where "a = strip_other (toLowerCase t)"
  define b where "b = replace_runs is_space a"
  define c where "c = replace_runs (\<lambda>c. c = hyphen) b"
  have a: "\<forall>x \<in> set a. slug_char x" by (simp add: a_def strip_other_def)
  have b: "\<forall>x \<in> set b. slug_letter x"
    using set_replace_runs [of is_space a] a
    by (auto simp: b_def slug_letter_def slug_char_def)
  have c: "\<forall>x \<in> set c. slug_letter x"
    using set_replace_runs [of "\<lambda>c. c = hyphen" b] b
    by (auto simp: c_def slug_letter_def)
  have "single_hyphens c" unfolding c_def by (rule single_replace_runs)
  note d = strip_edges_shape [OF this]
  with c have l: "\<forall>x \<in> set (strip_edges c). slug_letter x" by blast
  then have "\<forall>x \<in> set (strip_edges c). \<not> is_space x" by (blast dest: slug_letter_no_space)
  then have "trim (strip_edges c) = strip_edges c" by (rule trim_no_space)
  then have "slugify t = strip_edges c" by (simp add: slugify_def a_def b_def c_def)
  with d l show ?thesis by (simp add: list_all_iff)
qed

lemma lower_char_slug_letter: "slug_letter c \<Longrightarrow> lower_char c = c"
  by (auto simp: slug_letter_def is_lower_def is_digit_def hyphen_def code_def lower_char_def)

lemma slug_setters_id: "set_path EventSchema_slug (Some (slugify t)) = Some (slugify t)"
proof -
  have l: "\<forall>x \<in> set (slugify t). slug_letter x"
    using slug_shape [of t] by (simp add: list_all_iff)
  then have "toLowerCase (slugify t) = slugify t"
    unfolding toLowerCase_def by (intro map_idI) (simp add: lower_char_slug_letter)
  moreover from l have "\<forall>x \<in> set (slugify t). \<not> is_space x"
    by (blast dest: slug_letter_no_space)
  then have "trim (slugify t) = slugify t" by (rule trim_no_space)
  ultimately show ?thesis by (simp add: set_path_def EventSchema_slug_def)
qed

section \<open>The matcher decides the language of a pattern\<close>

lemma nullable_lang: "nullable r \<longleftrightarrow> [] \<in> lang r"
  by (induction r) (auto simp: conc_def intro: star_nil)

lemma star_cons_split:
  assumes "x \<in> star A" and "x = c # w"
  shows "\<exists>u v. w = u @ v \<and> c # u \<in> A \<and> v \<in> star A"
  using assms
proof (induction arbitrary: w rule: star.induct)
  case star_nil
  then show ?case by simp
next
  case (star_app u v)
  show ?case
  proof (cases u)
    case Nil
    with star_app show ?thesis by simp
  next
    case (Cons a u')
    with star_app.prems have "a = c" and "w = u' @ v" by simp_all
    with Cons star_app.hyps show ?thesis by blast
  qed
qed

lemma star_cons_iff:
  "c # w \<in> star A \<longleftrightarrow> (\<exists>u v. w = u @ v \<and> c # u \<in> A \<and> v \<in> star A)"
proof
  assume "c # w \<in> star A"
  then show "\<exists>u v. w = u @ v \<and> c # u \<in> A \<and> v \<in> star A"
    by (rule star_cons_split) simp
next
  assume "\<exists>u v. w = u @ v \<and> c # u \<in> A \<and> v \<in> star A"
  then obtain u v where "w = u @ v" "c # u \<in> A" "v \<in> star A" by blast
  then have "(c # u) @ v \<in> star A" by (intro star_app)
  with \<open>w = u @ v\<close> show "c # w \<in> star A" by simp
qed

lemma conc_cons_iff:
  "c # w \<in> conc A B \<longleftrightarrow>
     ([] \<in> A \<and> c # w \<in> B) \<or> (\<exists>u v. w = u @ v \<and> c # u \<in> A \<and> v \<in> B)"
  unfolding conc_def by (auto simp: Cons_eq_append_conv)

lemma lang_deriv: "w \<in> lang (deriv c r) \<longleftrightarrow> c # w \<in> lang r"
proof (induction r arbitrary: w)
  case (Seq r1 r2)
  then show ?case
    by (auto simp: conc_cons_iff nullable_lang) (auto simp: conc_def)
next
  case (Star r)
  then show ?case
    by (auto simp: star_cons_iff) (auto simp: conc_def)
qed auto

lemma test_lang: "test r s \<longleftrightarrow> s \<in> lang r"
  unfolding test_def
  by (induction s arbitrary: r) (simp_all add: nullable_lang lang_deriv)

lemma chr_eqs:
  "c = CHR ''0'' \<longleftrightarrow> of_char c = (48::nat)"
  "c = CHR ''1'' \<longleftrightarrow> of_char c = (49::nat)"
  "c = CHR ''2'' \<longleftrightarrow> of_char c = (50::nat)"
  "c = CHR '':'' \<longleftrightarrow> of_char c = (58::nat)"
  by (simp_all flip: of_char_eq_iff [where ?'a = nat])

lemmas time_defs = timeRegex_def Lit_def Opt_def in_range_def is_digit_def code_def digit_val_def

lemma time_lang_sub: "s \<in> lang timeRegex \<Longrightarrow> HH_MM s \<or> H_MM s"
  unfolding timeRegex_def Lit_def Opt_def
  by (auto simp: conc_def in_range_def is_digit_def code_def digit_val_def)

lemma HH_MM_test: "HH_MM s \<Longrightarrow> test timeRegex s"
  by (induction s rule: HH_MM.induct) (auto simp: test_def time_defs chr_eqs)

lemma H_MM_test: "H_MM s \<Longrightarrow> test timeRegex s"
  by (induction s rule: H_MM.induct) (auto simp: test_def time_defs chr_eqs)

lemma timeRegex_iff: "test timeRegex s \<longleftrightarrow> HH_MM s \<or> H_MM s"
  using time_lang_sub HH_MM_test H_MM_test test_lang by blast

lemma star_Cls: "star {[c] | c. P c} = {w. list_all P w}"
proof (intro set_eqI iffI)
  fix w
  assume "w \<in> star {[c] | c. P c}"
  then show "w \<in> {w. list_all P w}" by (induction rule: star.induct) auto
next
  fix w
  assume "w \<in> {w. list_all P w}"
  then have "list_all P w" by simp
  then show "w \<in> star {[c] | c. P c}"
  proof (induction w)
    case Nil
    show ?case by (rule star_nil)
  next
    case (Cons a w)
    then have "[a] \<in> {[c] | c. P c}" "w \<in> star {[c] | c. P c}" by simp_all
    then have "[a] @ w \<in> star {[c] | c. P c}" by (rule star_app)
    then show ?case by simp
  qed
qed

lemma lang_Plus_Cls: "lang (Plus (Cls P)) = {w. w \<noteq> [] \<and> list_all P w}"
proof -
  have "conc {[c] | c. P c} {w. list_all P w} = {w. w \<noteq> [] \<and> list_all P w}"
    unfolding conc_def
  proof (intro set_eqI iffI)
    fix w
    assume "w \<in> {u @ v | u v. u \<in> {[c] | c. P c} \<and> v \<in> {w. list_all P w}}"
    then show "w \<in> {w. w \<noteq> [] \<and> list_all P w}" by auto
  next
    fix w
    assume "w \<in> {w. w \<noteq> [] \<and> list_all P w}"
    then obtain a v where "w = [a] @ v" "P a" "list_all P v" by (cases w) auto
    then show "w \<in> {u @ v | u v. u \<in> {[c] | c. P c} \<and> v \<in> {w. list_all P w}}" by blast
  qed
  then show ?thesis by (simp add: Plus_def star_Cls)
qed

lemma lang_emailRegex:
  "lang emailRegex =
     {u @ [CHR ''@''] @ d @ [CHR ''.''] @ t | u d t.
        (u \<noteq> [] \<and> list_all plain u) \<and> (d \<noteq> [] \<and> list_all plain d)
        \<and> (t \<noteq> [] \<and> list_all plain t)}"
  unfolding emailRegex_def lang.simps(5) lang_Plus_Cls
  by (auto simp: conc_def Lit_def) blast+

lemma emailRegex_iff: "test emailRegex s \<longleftrightarrow> email_shape s"
  unfolding test_lang lang_emailRegex email_shape_def by auto

section \<open>Reading back a date that was written\<close>

lemma DayFromYear_1970: "DayFromYear 1970 = 0"
  by (simp add: DayFromYear_def)

lemma DayFromYear_up:
  "1970 \<le> y \<Longrightarrow> 365 * (y - 1970) \<le> DayFromYear y \<and> DayFromYear y \<le> 366 * (y - 1970)"
proof (induction y rule: int_ge_induct)
  case base
  show ?case by (simp add: DayFromYear_1970)
next
  case (step i)
  with DayFromYear_step [of i] DaysInYear_bounds [of i] show ?case by simp
qed

lemma DayFromYear_down:
  "y \<le> 1970 \<Longrightarrow> 366 * (y - 1970) \<le> DayFromYear y \<and> DayFromYear y \<le> 365 * (y - 1970)"
proof (induction y rule: int_le_induct)
  case base
  show ?case by (simp add: DayFromYear_1970)
next
  case (step i)
  with DayFromYear_step [of "i - 1"] DaysInYear_bounds [of "i - 1"] show ?case by simp
qed

lemma year_start_le:
  "DayFromYear (1970 + (if 0 \<le> d then d div 366 else d div 365)) \<le> d"
proof (cases "0 \<le> d")
  case True
  define q where "q = d div 366"
  have "366 * q + d mod 366 = d" "0 \<le> d mod 366" by (simp_all add: q_def)
  then have q: "366 * q \<le> d" by linarith
  have "0 \<le> q" using True by (simp add: q_def)
  with DayFromYear_up [of "1970 + q"] q True show ?thesis by (simp flip: q_def)
next
  case False
  define q where "q = d div 365"
  have "365 * q + d mod 365 = d" "0 \<le> d mod 365" by (simp_all add: q_def)
  then have q: "365 * q \<le> d" by linarith
  have "q < 0" using False by (simp add: q_def div_neg_pos_less0)
  with DayFromYear_down [of "1970 + q"] q False show ?thesis by (simp flip: q_def)
qed

lemma year_search_spec:
  "DayFromYear y \<le> d \<Longrightarrow>
     DayFromYear (year_search d y) \<le> d \<and> d < DayFromYear (year_search d y + 1)"
proof (induction d y rule: year_search.induct)
  case (1 d y)
  show ?case
  proof (cases "DayFromYear (y + 1) \<le> d")
    case True
    with "1.IH" have "DayFromYear (year_search d (y + 1)) \<le> d
        \<and> d < DayFromYear (year_search d (y + 1) + 1)" by simp
    moreover have "year_search d y = year_search d (y + 1)"
      using True by (subst year_search.simps) simp
    ultimately show ?thesis by simp
  next
    case False
    then have "year_search d y = y" by (subst year_search.simps) simp
    with False "1.prems" show ?thesis by simp
  qed
qed

lemma YearFromDay_spec:
  "DayFromYear (YearFromDay d) \<le> d \<and> d < DayFromYear (YearFromDay d + 1)"
  unfolding YearFromDay_def by (rule year_search_spec) (rule year_start_le)

lemma YearFromDay_range:
  assumes "- 100000000 \<le> d" "d \<le> 100000000"
  shows "- 999999 \<le> YearFromDay d \<and> YearFromDay d \<le> 999999"
proof -
  define y where "y = YearFromDay d"
  have s: "DayFromYear y \<le> d" "d < DayFromYear (y + 1)"
    using YearFromDay_spec [of d] by (simp_all add: y_def)
  show ?thesis
  proof (cases "1970 \<le> y")
    case True
    with DayFromYear_up [of y] s assms show ?thesis by (simp flip: y_def)
  next
    case False
    then have "y + 1 \<le> 1970" by simp
    with DayFromYear_down [of "y + 1"] s assms show ?thesis by (simp flip: y_def)
  qed
qed

lemma month_table:
  assumes "0 \<le> w" "w < 365 + l" "l = 0 \<or> l = 1"
  shows "0 \<le> month_of w l \<and> month_of w l \<le> 11
    \<and> 1 \<le> w + 1 - month_start (month_of w l) l
    \<and> w + 1 - month_start (month_of w l) l \<le> DaysInMonth (month_of w l) l"
  using assms unfolding month_of_def month_start_def DaysInMonth_def by auto

lemma DayWithinYear_range:
  "0 \<le> DayWithinYear d \<and> DayWithinYear d < 365 + InLeapYear (YearFromDay d)"
proof -
  define y where "y = YearFromDay d"
  have s: "DayFromYear y \<le> d" "d < DayFromYear (y + 1)"
    using YearFromDay_spec [of d] by (simp_all add: y_def)
  have "DaysInYear y = 365 + InLeapYear y"
    using DaysInYear_bounds [of y] by (simp add: InLeapYear_def)
  with s DayFromYear_step [of y] show ?thesis
    by (simp add: DayWithinYear_def flip: y_def)
qed

lemma InLeapYear_cases: "InLeapYear y = 0 \<or> InLeapYear y = 1"
  by (simp add: InLeapYear_def)

lemma civil_valid:
  "0 \<le> MonthFromDay d \<and> MonthFromDay d \<le> 11 \<and> 1 \<le> DateFromDay d
   \<and> DateFromDay d \<le> DaysInMonth (MonthFromDay d) (InLeapYear (YearFromDay d))"
  unfolding MonthFromDay_def DateFromDay_def
  using month_table [of "DayWithinYear d" "InLeapYear (YearFromDay d)"]
    DayWithinYear_range [of d] InLeapYear_cases [of "YearFromDay d"]
  by blast

lemma MakeDay_civil: "MakeDay (YearFromDay d) (MonthFromDay d) (DateFromDay d) = d"
  by (simp add: MakeDay_def DateFromDay_def DayWithinYear_def)

lemma digit_char_code: "d < 10 \<Longrightarrow> code (digit_char d) = 48 + d"
  by (simp add: digit_char_def code_def)

lemma digit_char_props:
  assumes "d < 10"
  shows "is_digit (digit_char d)" "digit_val (digit_char d) = d"
    "digit_char d \<noteq> CHR ''T''" "CHR ''T'' \<noteq> digit_char d"
proof -
  note c = digit_char_code [OF assms]
  show "is_digit (digit_char d)" using assms by (simp add: is_digit_def c)
  show "digit_val (digit_char d) = d" by (simp add: digit_val_def c)
  have "code (digit_char d) \<noteq> code CHR ''T''"
    using assms unfolding c by (simp add: code_def)
  then show "digit_char d \<noteq> CHR ''T''" "CHR ''T'' \<noteq> digit_char d"
    by auto
qed

lemma length_pad: "length (pad n k) = n"
  by (induction n arbitrary: k) simp_all

lemma pad_digits: "list_all is_digit (pad n k)"
  by (induction n arbitrary: k) (simp_all add: digit_char_props)

lemma pad_no_T: "CHR ''T'' \<notin> set (pad n k)"
  by (induction n arbitrary: k) (simp_all add: digit_char_props)

lemma digits_val_snoc: "digits_val (s @ [c]) = 10 * digits_val s + digit_val c"
  by (simp add: digits_val_def)

lemma digits_val_pad: "k < 10 ^ n \<Longrightarrow> digits_val (pad n k) = k"
proof (induction n arbitrary: k)
  case 0
  then show ?case by (simp add: digits_val_def)
next
  case (Suc n)
  from Suc.prems have "k div 10 < 10 ^ n" by (simp add: less_mult_imp_div_less mult.commute)
  then have "digits_val (pad n (k div 10)) = k div 10" by (rule Suc.IH)
  then show ?case by (simp add: digits_val_snoc digit_char_props)
qed

lemma pad2: "pad 2 k = [digit_char (k div 10 mod 10), digit_char (k mod 10)]"
  by (simp add: numeral_2_eq_2)

lemma parse_year_4:
  assumes "0 \<le> y" "y \<le> 9999"
  shows "parse_year (pad 4 (nat y)) = Some y"
proof -
  from assms have "nat y < 10000" by linarith
  then have "nat y < 10 ^ 4" by simp
  then have "digits_val (pad 4 (nat y)) = nat y" by (rule digits_val_pad)
  with assms(1) show ?thesis
    by (simp add: parse_year_def length_pad pad_digits)
qed

lemma parse_year_6:
  assumes "n < 10 ^ 6"
  shows "parse_year (CHR ''+'' # pad 6 n) = Some (int n)"
    and "n \<noteq> 0 \<Longrightarrow> parse_year (CHR ''-'' # pad 6 n) = Some (- int n)"
proof -
  from assms have v: "digits_val (pad 6 n) = n" by (rule digits_val_pad)
  show "parse_year (CHR ''+'' # pad 6 n) = Some (int n)"
    by (simp add: parse_year_def length_pad pad_digits v)
  show "parse_year (CHR ''-'' # pad 6 n) = Some (- int n)" if "n \<noteq> 0"
    using that by (simp add: parse_year_def length_pad pad_digits v)
qed

lemma parse_year_str:
  assumes "- 999999 \<le> y" "y \<le> 999999"
  shows "parse_year (year_str y) = Some y"
proof (cases "0 \<le> y \<and> y \<le> 9999")
  case True
  then show ?thesis by (simp add: year_str_def parse_year_4)
next
  case False
  from assms have "nat \<bar>y\<bar> < 1000000" by linarith
  then have b: "nat \<bar>y\<bar> < 10 ^ 6" by simp
  show ?thesis
  proof (cases "y < 0")
    case True
    then have "nat \<bar>y\<bar> \<noteq> 0" "- int (nat \<bar>y\<bar>) = y" by simp_all
    with parse_year_6(2) [OF b] True False show ?thesis by (simp add: year_str_def)
  next
    case nn: False
    then have "int (nat \<bar>y\<bar>) = y" by simp
    with parse_year_6(1) [OF b] nn False show ?thesis by (simp add: year_str_def)
  qed
qed

lemma parse_month_day_str:
  assumes "m < 100" "d < 100"
  shows "parse_month_day (CHR ''-'' # pad 2 m @ CHR ''-'' # pad 2 d) = Some (int m, int d)"
proof -
  have a: "m div 10 < 10" "d div 10 < 10" using assms by simp_all
  then have "m div 10 mod 10 = m div 10" "d div 10 mod 10 = d div 10" by simp_all
  then have "pad 2 m = [digit_char (m div 10), digit_char (m mod 10)]"
    "pad 2 d = [digit_char (d div 10), digit_char (d mod 10)]"
    by (simp_all add: pad2)
  then show ?thesis
    using a by (simp add: digit_char_props)
qed

lemma year_str_no_T: "CHR ''T'' \<notin> set (year_str y)"
  by (simp add: year_str_def pad_no_T)

lemma length_year_str: "length (year_str y) = (if 0 \<le> y \<and> y \<le> 9999 then 4 else 7)"
  by (simp add: year_str_def length_pad)

lemma date_str_no_T: "CHR ''T'' \<notin> set (date_str y m dt)"
  by (simp add: date_str_def pad_no_T year_str_no_T)

lemma takeWhile_stop:
  assumes "c \<notin> set xs"
  shows "takeWhile (\<lambda>x. x \<noteq> c) (xs @ c # ys) = xs"
proof -
  have "takeWhile (\<lambda>x. x \<noteq> c) (xs @ c # ys) = xs @ takeWhile (\<lambda>x. x \<noteq> c) (c # ys)"
    using assms by (intro takeWhile_append2) auto
  then show ?thesis by simp
qed

lemma toISOString_split:
  "toISOString t =
     date_str (YearFromDay (Day t)) (MonthFromDay (Day t) + 1) (DateFromDay (Day t))
     @ CHR ''T'' # (pad 2 (nat (HourFromTime t)) @ '':'' @ pad 2 (nat (MinFromTime t)) @ '':''
       @ pad 2 (nat (SecFromTime t)) @ ''.'' @ pad 3 (nat (msFromTime t)) @ ''Z'')"
  unfolding toISOString_def date_str_def by simp

lemma iso_date_eq:
  "iso_date t = date_str (YearFromDay (Day t)) (MonthFromDay (Day t) + 1) (DateFromDay (Day t))"
  unfolding iso_date_def toISOString_split by (rule takeWhile_stop) (rule date_str_no_T)

lemma Day_mult: "Day (d * msPerDay) = d"
  by (simp add: Day_def msPerDay_def)

lemma Day_bounds:
  assumes "\<bar>t\<bar> \<le> 8640000000000000"
  shows "- 100000000 \<le> Day t \<and> Day t \<le> 100000000"
    and "\<bar>Day t * msPerDay\<bar> \<le> 8640000000000000"
proof -
  define q where "q = t div 86400000"
  have "86400000 * q + t mod 86400000 = t" "0 \<le> t mod 86400000" "t mod 86400000 < 86400000"
    by (simp_all add: q_def)
  with assms have q: "- 100000000 \<le> q \<and> q \<le> 100000000" by linarith
  then show "- 100000000 \<le> Day t \<and> Day t \<le> 100000000"
    by (simp add: Day_def msPerDay_def flip: q_def)
  from q have "\<bar>q * 86400000\<bar> \<le> 8640000000000000" by linarith
  then show "\<bar>Day t * msPerDay\<bar> \<le> 8640000000000000"
    by (simp add: Day_def msPerDay_def flip: q_def)
qed

lemma parse_date_str:
  assumes "- 999999 \<le> y" "y \<le> 999999" "1 \<le> m" "m \<le> 12" "1 \<le> dt"
    "dt \<le> DaysInMonth (m - 1) (InLeapYear y)"
  shows "parse_iso_date (date_str y m dt) = TimeClip (MakeDay y (m - 1) dt * msPerDay)"
proof -
  let ?tail = "CHR ''-'' # pad 2 (nat m) @ CHR ''-'' # pad 2 (nat dt)"
  have len: "length ?tail = 6" by (simp add: length_pad)
  have n: "length (date_str y m dt) = 10 \<or> length (date_str y m dt) = 13"
    by (simp add: date_str_def length_pad length_year_str)
  have tk: "take (length (date_str y m dt) - 6) (date_str y m dt) = year_str y"
    and dr: "drop (length (date_str y m dt) - 6) (date_str y m dt) = ?tail"
    by (simp_all add: date_str_def length_pad)
  have "dt \<le> 31" using assms(6) InLeapYear_cases [of y]
    by (auto simp: DaysInMonth_def split: if_splits)
  with assms have "nat m < 100" "nat dt < 100" by simp_all
  then have md: "parse_month_day ?tail = Some (int (nat m), int (nat dt))"
    by (rule parse_month_day_str)
  from assms have md': "int (nat m) = m" "int (nat dt) = dt" by simp_all
  show ?thesis
    unfolding parse_iso_date_def Let_def tk dr md md' parse_year_str [OF assms(1,2)]
    using n assms by simp
qed

lemma parse_iso_date_iso_date:
  assumes "\<bar>t\<bar> \<le> 8640000000000000"
  shows "parse_iso_date (iso_date t) = Some (Day t * msPerDay)"
proof -
  let ?d = "Day t"
  note r = YearFromDay_range [OF Day_bounds(1) [OF assms, THEN conjunct1]
      Day_bounds(1) [OF assms, THEN conjunct2]]
  note v = civil_valid [of ?d]
  have "parse_iso_date (date_str (YearFromDay ?d) (MonthFromDay ?d + 1) (DateFromDay ?d))
      = TimeClip (MakeDay (YearFromDay ?d) (MonthFromDay ?d + 1 - 1) (DateFromDay ?d) * msPerDay)"
    using r v by (intro parse_date_str) simp_all
  also have "\<dots> = TimeClip (?d * msPerDay)" by (simp add: MakeDay_civil)
  also have "\<dots> = Some (?d * msPerDay)"
    using Day_bounds(2) [OF assms] by (simp add: TimeClip_def)
  finally show ?thesis by (simp add: iso_date_eq)
qed

lemma iso_date_Day: "iso_date (Day t * msPerDay) = iso_date t"
  by (simp add: iso_date_eq Day_mult)

lemma TimeClip_Some: "TimeClip t = Some u \<Longrightarrow> \<bar>u\<bar> \<le> 8640000000000000"
  by (auto simp: TimeClip_def split: if_splits)

lemma parse_iso_date_clipped: "parse_iso_date s = Some t \<Longrightarrow> \<bar>t\<bar> \<le> 8640000000000000"
  unfolding parse_iso_date_def Let_def
  by (auto split: if_splits option.splits dest: TimeClip_Some)

lemma Date_parse_clipped: "Date_parse legacy s = Some t \<Longrightarrow> \<bar>t\<bar> \<le> 8640000000000000"
  unfolding Date_parse_def
  by (auto split: option.splits dest: TimeClip_Some parse_iso_date_clipped)

lemma Date_parse_iso_date:
  assumes "Date_parse legacy s = Some t"
  shows "Date_parse legacy (iso_date t) = Some (Day t * msPerDay)"
    and "iso_date (Day t * msPerDay) = iso_date t"
  using parse_iso_date_iso_date [OF Date_parse_clipped [OF assms]]
  by (simp_all add: Date_parse_def iso_date_Day)

section \<open>The hooks, step by step\<close>

lemma derive_slug_keeps:
  "derive_slug tr ev = Inr ev' \<Longrightarrow>
     date ev' = date ev \<and> time ev' = time ev
     \<and> (\<not> isNew tr \<and> \<not> isModified tr ''title'' \<longrightarrow> ev' = ev)"
  by (auto simp: derive_slug_def split: if_splits option.splits)

lemma normalize_date_keeps:
  "normalize_date legacy tr ev = Inr ev' \<Longrightarrow> slug ev' = slug ev \<and> time ev' = time ev"
  by (auto simp: normalize_date_def split: if_splits option.splits)

lemma check_time_keeps: "check_time tr ev = Inr ev' \<Longrightarrow> ev' = ev"
  by (auto simp: check_time_def split: if_splits)

lemma check_required_keeps: "check_required ev = Inr ev' \<Longrightarrow> ev' = ev"
  by (auto simp: check_required_def split: option.splits)

lemma Event_pre_save_Inr:
  assumes "Event_pre_save legacy tr ev = Inr ev'"
  obtains ev1 where "derive_slug tr ev = Inr ev1" "normalize_date legacy tr ev1 = Inr ev'"
    "check_time tr ev' = Inr ev'" "check_required ev' = Inr ev'"
  using assms unfolding Event_pre_save_def
  by (auto split: sum.splits dest: check_time_keeps check_required_keeps)

text \<open>
  C9. A save of an existing Event in which \<open>title\<close> was not modified leaves the slug as it
  was, whatever other paths were modified: when the hook lets the document through, its slug
  is the slug it came with.
\<close>

theorem slug_kept:
  assumes "\<not> isNew tr" and "\<not> isModified tr ''title''"
    and "Event_pre_save legacy tr ev = Inr ev'"
  shows "slug ev' = slug ev"
proof -
  from assms(3) obtain ev1 where 1: "derive_slug tr ev = Inr ev1"
    and 2: "normalize_date legacy tr ev1 = Inr ev'"
    by (rule Event_pre_save_Inr)
  from 1 assms(1,2) have "ev1 = ev" by (simp add: derive_slug_def)
  with 2 show ?thesis by (simp add: normalize_date_keeps)
qed

text \<open>An edit of the venue and the date of the sample event, with an engine that reads
  \<open>Dec 2, 2024\<close> as midnight UTC of that day: the date is rewritten and the slug is kept.\<close>

lemma sample_edit_saved:
  "Event_pre_save (\<lambda>s. if s = ''Dec 2, 2024'' then Some 1733097600000 else None)
     \<lparr>isNew = False, modifiedPaths = [''venue'', ''date'']\<rparr>
     (sample_event\<lparr>venue := Some ''Hall B'', date := Some ''Dec 2, 2024''\<rparr>)
   = Inr (sample_event\<lparr>venue := Some ''Hall B'', date := Some ''2024-12-02''\<rparr>)"
  by code_simp

theorem slug_kept_witness:
  "\<not> isNew \<lparr>isNew = False, modifiedPaths = [''venue'', ''date'']\<rparr>
   \<and> \<not> isModified \<lparr>isNew = False, modifiedPaths = [''venue'', ''date'']\<rparr> ''title''
   \<and> Event_pre_save (\<lambda>s. if s = ''Dec 2, 2024'' then Some 1733097600000 else None)
        \<lparr>isNew = False, modifiedPaths = [''venue'', ''date'']\<rparr>
        (sample_event\<lparr>venue := Some ''Hall B'', date := Some ''Dec 2, 2024''\<rparr>)
      = Inr (sample_event\<lparr>venue := Some ''Hall B'', date := Some ''2024-12-02''\<rparr>)
   \<and> slug (sample_event\<lparr>venue := Some ''Hall B'', date := Some ''2024-12-02''\<rparr>)
      = slug (sample_event\<lparr>venue := Some ''Hall B'', date := Some ''Dec 2, 2024''\<rparr>)
   \<and> slug (sample_event\<lparr>venue := Some ''Hall B'', date := Some ''2024-12-02''\<rparr>)
      = Some ''aws-reinvent-2024''"
proof -
  let ?tr = "\<lparr>isNew = False, modifiedPaths = [''venue'', ''date'']\<rparr>"
  have a: "\<not> isNew ?tr" by simp
  have b: "\<not> isModified ?tr ''title''" by (simp add: isModified_def)
  have c: "slug (sample_event\<lparr>venue := Some ''Hall B'', date := Some ''2024-12-02''\<rparr>)
      = Some ''aws-reinvent-2024''" by (simp add: sample_event_def)
  from slug_kept [OF a b sample_edit_saved] a b c sample_edit_saved show ?thesis
    by (intro conjI)
qed

text \<open>
  C6. A Booking that is new, or whose \<open>eventId\<close> was modified, and whose Event the store does
  not hold when the pre-save check is made, is rejected with the error that the referenced
  event does not exist, and the store is left as it was. The check is made once the schema's
  validators have passed; a booking that they refuse is rejected before the check is made,
  and the store is left as it was then too.
\<close>

theorem booking_missing_event:
  assumes "isNew tr \<or> isModified tr ''eventId''"
    and "reachable st"
    and "map_of (events st) (eventId b) = None"
  shows "(Booking_validate b = None \<longrightarrow>
            Booking_pre_save (Event_exists st) tr b
              = Inl (Error ''Referenced event does not exist'')
            \<and> Booking_save st tr b = (Inl (Error ''Referenced event does not exist''), st))
    \<and> (\<exists>e. fst (Booking_save st tr b) = Inl e)
    \<and> snd (Booking_save st tr b) = st"
  using assms
  by (auto simp: Booking_save_def Booking_pre_save_def Event_exists_def split: option.splits)

text \<open>A new booking for event 2, with a well-formed e-mail, in a store that holds event 1
  only.\<close>

lemma sample_booking_valid: "Booking_validate \<lparr>eventId = 2, email = Some ''a@b.co''\<rparr> = None"
  by (simp add: Booking_validate_def BookingSchema_email_validator_def test_def
      emailRegex_def Plus_def Lit_def plain_def char_defs)

theorem booking_missing_event_witness:
  "isNew \<lparr>isNew = True, modifiedPaths = [''eventId'', ''email'']\<rparr>
   \<and> reachable \<lparr>events = [(1, sample_event)], bookings = [], reachable = True\<rparr>
   \<and> map_of (events \<lparr>events = [(1, sample_event)], bookings = [], reachable = True\<rparr>)
        (eventId \<lparr>eventId = 2, email = Some ''a@b.co''\<rparr>) = None
   \<and> Booking_validate \<lparr>eventId = 2, email = Some ''a@b.co''\<rparr> = None
   \<and> Booking_save \<lparr>events = [(1, sample_event)], bookings = [], reachable = True\<rparr>
        \<lparr>isNew = True, modifiedPaths = [''eventId'', ''email'']\<rparr>
        \<lparr>eventId = 2, email = Some ''a@b.co''\<rparr>
      = (Inl (Error ''Referenced event does not exist''),
         \<lparr>events = [(1, sample_event)], bookings = [], reachable = True\<rparr>)"
proof -
  let ?tr = "\<lparr>isNew = True, modifiedPaths = [''eventId'', ''email'']\<rparr>"
  let ?st = "\<lparr>events = [(1, sample_event)], bookings = [], reachable = True\<rparr>"
  let ?b = "\<lparr>eventId = 2, email = Some ''a@b.co''\<rparr>"
  have n: "isNew ?tr" by simp
  then have a: "isNew ?tr \<or> isModified ?tr ''eventId''" by (rule disjI1)
  have b: "reachable ?st" by simp
  have c: "map_of (events ?st) (eventId ?b) = None" by simp
  from booking_missing_event [OF a b c, THEN conjunct1] sample_booking_valid
  have "Booking_pre_save (Event_exists ?st) ?tr ?b = Inl (Error ''Referenced event does not exist'')
      \<and> Booking_save ?st ?tr ?b = (Inl (Error ''Referenced event does not exist''), ?st)"
    by (rule mp)
  then have "Booking_save ?st ?tr ?b = (Inl (Error ''Referenced event does not exist''), ?st)"
    by (rule conjunct2)
  with n b c sample_booking_valid show ?thesis by (intro conjI)
qed

lemma email_shape_nonempty: "email_shape s \<Longrightarrow> s \<noteq> []"
  by (auto simp: email_shape_def)

lemma email_examples: "\<not> test emailRegex ''not-an-email''" "test emailRegex ''a@b.co''"
  by (simp_all add: test_def emailRegex_def Plus_def Lit_def plain_def char_defs)

text \<open>
  C7. Where the check of the Event passes or is not made, the hook accepts a Booking exactly
  when its e-mail is one or more characters other than white space and \<open>@\<close>, an \<open>@\<close>, one or
  more such characters, a dot, and one or more such characters; it then passes the booking
  on unchanged. \<open>not-an-email\<close> is rejected with the format error, \<open>a@b.co\<close> is accepted.
\<close>

theorem email_check:
  assumes "\<not> (isNew tr \<or> isModified tr ''eventId'') \<or> query (eventId b) = Resolved True"
  shows "(email b = Some s \<longrightarrow>
            ((\<exists>b'. Booking_pre_save query tr b = Inr b') \<longleftrightarrow> email_shape s)
          \<and> (email_shape s \<longrightarrow> Booking_pre_save query tr b = Inr b))
    \<and> Booking_pre_save query tr (b\<lparr>email := Some ''not-an-email''\<rparr>)
        = Inl (Error ''Invalid email format'')
    \<and> Booking_pre_save query tr (b\<lparr>email := Some ''a@b.co''\<rparr>)
        = Inr (b\<lparr>email := Some ''a@b.co''\<rparr>)"
  using assms email_shape_nonempty [of s] email_examples
  by (auto simp: Booking_pre_save_def emailRegex_iff)

text \<open>A new booking of an event that the store holds.\<close>

theorem email_check_witness:
  "Event_exists \<lparr>events = [(1, sample_event)], bookings = [], reachable = True\<rparr>
       (eventId \<lparr>eventId = 1, email = Some ''dev@example.org''\<rparr>) = Resolved True
   \<and> email \<lparr>eventId = 1, email = Some ''dev@example.org''\<rparr> = Some ''dev@example.org''
   \<and> email_shape ''dev@example.org''
   \<and> Booking_pre_save
        (Event_exists \<lparr>events = [(1, sample_event)], bookings = [], reachable = True\<rparr>)
        \<lparr>isNew = True, modifiedPaths = [''eventId'', ''email'']\<rparr>
        \<lparr>eventId = 1, email = Some ''dev@example.org''\<rparr>
      = Inr \<lparr>eventId = 1, email = Some ''dev@example.org''\<rparr>"
proof -
  let ?tr = "\<lparr>isNew = True, modifiedPaths = [''eventId'', ''email'']\<rparr>"
  let ?st = "\<lparr>events = [(1, sample_event)], bookings = [], reachable = True\<rparr>"
  let ?b = "\<lparr>eventId = 1, email = Some ''dev@example.org''\<rparr>"
  have q: "Event_exists ?st (eventId ?b) = Resolved True" by (simp add: Event_exists_def)
  then have a: "\<not> (isNew ?tr \<or> isModified ?tr ''eventId'') \<or> Event_exists ?st (eventId ?b) = Resolved True"
    by (rule disjI2)
  have e: "email ?b = Some ''dev@example.org''" by simp
  have t: "test emailRegex ''dev@example.org''"
    by (simp add: test_def emailRegex_def Plus_def Lit_def plain_def char_defs)
  then have sh: "email_shape ''dev@example.org''" by (simp only: emailRegex_iff)
  from email_check [where query = "Event_exists ?st" and tr = ?tr and b = ?b
      and s = "''dev@example.org''", OF a] e sh
  have "Booking_pre_save (Event_exists ?st) ?tr ?b = Inr ?b" by blast
  with q e sh show ?thesis by simp
qed

text \<open>
  C2. A modified time is accepted exactly when it is \<open>HH:MM\<close>, with hours 00 to 23 and
  minutes 00 to 59, as the comment of the hook and the message of its error say. The hook
  does not achieve this: its pattern makes the first digit of the hours optional, so \<open>9:05\<close>,
  which is not of that form, is accepted and stored as it is, for an existing event whose
  time is edited and for a new event alike.
\<close>

theorem time_hour_one_digit:
  "\<not> HH_MM ''9:05''
   \<and> Event_pre_save (\<lambda>s. None) \<lparr>isNew = False, modifiedPaths = [''time'']\<rparr>
        (sample_event\<lparr>time := Some ''9:05''\<rparr>)
      = Inr (sample_event\<lparr>time := Some ''9:05''\<rparr>)
   \<and> Event_pre_save (\<lambda>s. None)
        \<lparr>isNew = True, modifiedPaths = requiredFields @ [''agenda'', ''tags'']\<rparr>
        (sample_event\<lparr>slug := None, time := Some ''9:05''\<rparr>)
      = Inr (sample_event\<lparr>time := Some ''9:05''\<rparr>)"
  by code_simp

lemma time_examples:
  "\<not> test timeRegex ''9:5''" "\<not> test timeRegex ''24:00''"
  "test timeRegex ''09:05''" "test timeRegex ''23:59''"
  by (simp_all add: test_def time_defs)

text \<open>
  What the time check does accept: hours from 00 to 23 or one digit of hours, a colon, and
  minutes from 00 to 59. A document that the hook lets through has such a time, unchanged;
  and once the slug and date steps have passed, the hook rejects with the format error when
  the time is not of that form, and goes on to the required fields when it is. \<open>9:5\<close> and
  \<open>24:00\<close> do not match, \<open>09:05\<close> and \<open>23:59\<close> do.
\<close>

theorem time_check:
  assumes "isModified tr ''time''" and "time ev = Some s"
  shows "(Event_pre_save legacy tr ev = Inr ev' \<longrightarrow> (HH_MM s \<or> H_MM s) \<and> time ev' = Some s)
    \<and> (derive_slug tr ev = Inr ev1 \<and> normalize_date legacy tr ev1 = Inr ev2 \<longrightarrow>
          Event_pre_save legacy tr ev =
            (if HH_MM s \<or> H_MM s then check_required ev2
             else Inl (Error ''Time must be in HH:MM format'')))
    \<and> \<not> test timeRegex ''9:5'' \<and> \<not> test timeRegex ''24:00''
    \<and> test timeRegex ''09:05'' \<and> test timeRegex ''23:59''"
proof (intro conjI impI)
  assume "Event_pre_save legacy tr ev = Inr ev'"
  then obtain ev1 where 1: "derive_slug tr ev = Inr ev1"
    and 2: "normalize_date legacy tr ev1 = Inr ev'" and 3: "check_time tr ev' = Inr ev'"
    by (rule Event_pre_save_Inr)
  from assms(2) derive_slug_keeps [OF 1] normalize_date_keeps [OF 2]
  have t: "time ev' = Some s" by simp
  with 3 assms(1) show "HH_MM s \<or> H_MM s"
    by (simp add: check_time_def timeRegex_iff split: if_splits)
  from t show "time ev' = Some s" .
next
  assume a: "derive_slug tr ev = Inr ev1 \<and> normalize_date legacy tr ev1 = Inr ev2"
  with assms(2) derive_slug_keeps [of tr ev ev1] normalize_date_keeps [of legacy tr ev1 ev2]
  have "time ev2 = Some s" by simp
  with a assms(1) show "Event_pre_save legacy tr ev =
      (if HH_MM s \<or> H_MM s then check_required ev2
       else Inl (Error ''Time must be in HH:MM format''))"
    by (simp add: Event_pre_save_def check_time_def timeRegex_iff)
qed (rule time_examples)+

text \<open>An edit of the time of the sample event to \<open>23:59\<close>.\<close>

theorem time_check_witness:
  "isModified \<lparr>isNew = False, modifiedPaths = [''time'']\<rparr> ''time''
   \<and> time (sample_event\<lparr>time := Some ''23:59''\<rparr>) = Some ''23:59''
   \<and> Event_pre_save (\<lambda>s. None) \<lparr>isNew = False, modifiedPaths = [''time'']\<rparr>
        (sample_event\<lparr>time := Some ''23:59''\<rparr>) = Inr (sample_event\<lparr>time := Some ''23:59''\<rparr>)
   \<and> HH_MM ''23:59''
   \<and> time (sample_event\<lparr>time := Some ''24:00''\<rparr>) = Some ''24:00''
   \<and> derive_slug \<lparr>isNew = False, modifiedPaths = [''time'']\<rparr>
        (sample_event\<lparr>time := Some ''24:00''\<rparr>) = Inr (sample_event\<lparr>time := Some ''24:00''\<rparr>)
   \<and> normalize_date (\<lambda>s. None) \<lparr>isNew = False, modifiedPaths = [''time'']\<rparr>
        (sample_event\<lparr>time := Some ''24:00''\<rparr>) = Inr (sample_event\<lparr>time := Some ''24:00''\<rparr>)
   \<and> Event_pre_save (\<lambda>s. None) \<lparr>isNew = False, modifiedPaths = [''time'']\<rparr>
        (sample_event\<lparr>time := Some ''24:00''\<rparr>) = Inl (Error ''Time must be in HH:MM format'')"
proof -
  let ?tr = "\<lparr>isNew = False, modifiedPaths = [''time'']\<rparr>"
  let ?ev = "sample_event\<lparr>time := Some ''23:59''\<rparr>"
  let ?bad = "sample_event\<lparr>time := Some ''24:00''\<rparr>"
  have a: "isModified ?tr ''time''" by (simp add: isModified_def)
  have b: "time ?ev = Some ''23:59''" by simp
  have c: "Event_pre_save (\<lambda>s. None) ?tr ?ev = Inr ?ev" by code_simp
  have d: "\<not> H_MM ''23:59''" by simp
  from time_check [OF a b, of "\<lambda>s. None" ?ev ?ev ?ev, THEN conjunct1] c
  have "HH_MM ''23:59'' \<or> H_MM ''23:59''" by (simp only: simp_thms)
  with d have e: "HH_MM ''23:59''" by (simp only: simp_thms)
  have b': "time ?bad = Some ''24:00''" by simp
  have s: "derive_slug ?tr ?bad = Inr ?bad" "normalize_date (\<lambda>s. None) ?tr ?bad = Inr ?bad"
    by (simp_all add: derive_slug_def normalize_date_def isModified_def)
  have n: "\<not> (HH_MM ''24:00'' \<or> H_MM ''24:00'')" by code_simp
  note t = time_check [OF a b', of "\<lambda>s. None" ?bad ?bad ?bad]
  from s have "derive_slug ?tr ?bad = Inr ?bad \<and> normalize_date (\<lambda>s. None) ?tr ?bad = Inr ?bad"
    by (rule conjI)
  with t [THEN conjunct2, THEN conjunct1]
  have "Event_pre_save (\<lambda>s. None) ?tr ?bad =
      (if HH_MM ''24:00'' \<or> H_MM ''24:00'' then check_required ?bad
       else Inl (Error ''Time must be in HH:MM format''))" by (rule mp)
  with n have f: "Event_pre_save (\<lambda>s. None) ?tr ?bad = Inl (Error ''Time must be in HH:MM format'')"
    by (simp only: if_False)
  from a b c e b' s f show ?thesis by (intro conjI)
qed





section \<open>Normalizing a date twice\<close>

lemma normalize_date_result:
  assumes "isModified tr ''date''" and "normalize_date legacy tr ev = Inr ev'"
  obtains t where "Date_new legacy (date ev) = Some t" "ev' = ev\<lparr>date := Some (iso_date t)\<rparr>"
  using assms by (auto simp: normalize_date_def split: option.splits)

lemma normalize_date_again:
  assumes "normalize_date legacy tr ev = Inr ev'"
  shows "normalize_date legacy tr ev' = Inr ev'"
proof (cases "isModified tr ''date''")
  case False
  with assms show ?thesis by (simp add: normalize_date_def)
next
  case True
  from True assms obtain t where t: "Date_new legacy (date ev) = Some t"
    and ev': "ev' = ev\<lparr>date := Some (iso_date t)\<rparr>"
    by (rule normalize_date_result)
  from t obtain s where "Date_parse legacy s = Some t"
    by (auto simp: Date_new_def split: option.splits)
  then have "Date_parse legacy (iso_date t) = Some (Day t * msPerDay)"
    and "iso_date (Day t * msPerDay) = iso_date t"
    by (rule Date_parse_iso_date)+
  with True show ?thesis
    by (simp add: normalize_date_def Date_new_def ev')
qed

lemma derive_slug_again:
  assumes "derive_slug tr ev = Inr ev1" and "title ev' = title ev1" and "slug ev' = slug ev1"
  shows "derive_slug tr ev' = Inr ev'"
proof (cases "isModified tr ''title'' \<or> isNew tr")
  case False
  then show ?thesis by (simp add: derive_slug_def)
next
  case True
  define sl where "sl t = set_path EventSchema_slug (Some (slugify t))" for t
  from True assms(1) obtain t where "title ev = Some t" "ev1 = ev\<lparr>slug := sl t\<rparr>"
    by (auto simp: derive_slug_def sl_def split: option.splits)
  with assms(2,3) have "title ev' = Some t" "slug ev' = sl t" by simp_all
  then have "ev'\<lparr>slug := sl t\<rparr> = ev'" by (metis event.surjective event.update_convs(2))
  with True \<open>title ev' = Some t\<close> show ?thesis by (simp add: derive_slug_def sl_def)
qed

text \<open>
  C5. Date normalization is idempotent. The date written for a string that is read as a
  date \<open>t\<close> is itself read as a date, midnight UTC of the day of \<open>t\<close>, for which the same
  date is written. So the date step, applied to a document it has let through, returns that
  document unchanged, and so does the whole hook; a modified date that the step lets through
  was read as a date and is stored as the date part of \<open>toISOString\<close>. A modified date
  that cannot be read as a date is rejected with the error \<open>Invalid date format\<close> (by the
  hook as well, unless the slug step has already thrown).
\<close>

theorem date_normalization:
  "(Date_new legacy (Some s) = Some t \<longrightarrow>
        Date_new legacy (Some (iso_date t)) = Some (Day t * msPerDay)
        \<and> iso_date (Day t * msPerDay) = iso_date t)
   \<and> (normalize_date legacy tr ev = Inr ev' \<longrightarrow> normalize_date legacy tr ev' = Inr ev')
   \<and> (Event_pre_save legacy tr ev = Inr ev' \<longrightarrow> Event_pre_save legacy tr ev' = Inr ev')
   \<and> (isModified tr ''date'' \<and> normalize_date legacy tr ev = Inr ev' \<longrightarrow>
        (\<exists>t. Date_new legacy (date ev) = Some t \<and> date ev' = Some (iso_date t)))
   \<and> (isModified tr ''date'' \<and> Date_new legacy (date ev) = None \<longrightarrow>
        normalize_date legacy tr ev = Inl (Error ''Invalid date format'')
        \<and> (\<exists>e. Event_pre_save legacy tr ev = Inl e)
        \<and> (derive_slug tr ev \<noteq> Inl TypeError \<longrightarrow>
             Event_pre_save legacy tr ev = Inl (Error ''Invalid date format'')))"
proof (intro conjI impI)
  assume "Date_new legacy (Some s) = Some t"
  then have p: "Date_parse legacy s = Some t" by (simp add: Date_new_def)
  from Date_parse_iso_date(1) [OF p]
  show "Date_new legacy (Some (iso_date t)) = Some (Day t * msPerDay)"
    by (simp add: Date_new_def)
  from p show "iso_date (Day t * msPerDay) = iso_date t" by (rule Date_parse_iso_date(2))
next
  assume "normalize_date legacy tr ev = Inr ev'"
  then show "normalize_date legacy tr ev' = Inr ev'" by (rule normalize_date_again)
next
  assume "Event_pre_save legacy tr ev = Inr ev'"
  then obtain ev1 where 1: "derive_slug tr ev = Inr ev1"
    and 2: "normalize_date legacy tr ev1 = Inr ev'"
    and 3: "check_time tr ev' = Inr ev'" and 4: "check_required ev' = Inr ev'"
    by (rule Event_pre_save_Inr)
  from 2 have "title ev' = title ev1" "slug ev' = slug ev1"
    by (auto simp: normalize_date_def split: if_splits option.splits)
  with 1 have "derive_slug tr ev' = Inr ev'" by (rule derive_slug_again)
  with normalize_date_again [OF 2] 3 4 show "Event_pre_save legacy tr ev' = Inr ev'"
    by (simp add: Event_pre_save_def)
next
  assume "isModified tr ''date'' \<and> normalize_date legacy tr ev = Inr ev'"
  then obtain t where "Date_new legacy (date ev) = Some t" "ev' = ev\<lparr>date := Some (iso_date t)\<rparr>"
    by (blast elim: normalize_date_result)
  then show "\<exists>t. Date_new legacy (date ev) = Some t \<and> date ev' = Some (iso_date t)" by simp
next
  assume a: "isModified tr ''date'' \<and> Date_new legacy (date ev) = None"
  then show n: "normalize_date legacy tr ev = Inl (Error ''Invalid date format'')"
    by (simp add: normalize_date_def)
  have d: "derive_slug tr ev = Inl TypeError \<or> (\<exists>ev1. derive_slug tr ev = Inr ev1 \<and> date ev1 = date ev)"
    by (auto simp: derive_slug_def split: option.splits)
  with a show "\<exists>e. Event_pre_save legacy tr ev = Inl e"
    by (auto simp: Event_pre_save_def normalize_date_def)
  assume "derive_slug tr ev \<noteq> Inl TypeError"
  with d a show "Event_pre_save legacy tr ev = Inl (Error ''Invalid date format'')"
    by (auto simp: Event_pre_save_def normalize_date_def)
qed

text \<open>An engine that reads \<open>Dec 2, 2024\<close> as midnight UTC of that day; the sample event, its
  date edited to that string, is saved with the date \<open>2024-12-02\<close>, and saved again as it is.\<close>

lemma sample_date_saved:
  "Event_pre_save (\<lambda>s. if s = ''Dec 2, 2024'' then Some 1733097600000 else None)
     \<lparr>isNew = False, modifiedPaths = [''date'']\<rparr> (sample_event\<lparr>date := Some ''Dec 2, 2024''\<rparr>)
   = Inr (sample_event\<lparr>date := Some ''2024-12-02''\<rparr>)"
  by code_simp

lemma sample_date_refused:
  "Date_new (\<lambda>s. if s = ''Dec 2, 2024'' then Some 1733097600000 else None) (Some ''soon'') = None"
  by code_simp

theorem date_normalization_witness:
  "Event_pre_save (\<lambda>s. if s = ''Dec 2, 2024'' then Some 1733097600000 else None)
     \<lparr>isNew = False, modifiedPaths = [''date'']\<rparr> (sample_event\<lparr>date := Some ''Dec 2, 2024''\<rparr>)
   = Inr (sample_event\<lparr>date := Some ''2024-12-02''\<rparr>)
   \<and> Event_pre_save (\<lambda>s. if s = ''Dec 2, 2024'' then Some 1733097600000 else None)
     \<lparr>isNew = False, modifiedPaths = [''date'']\<rparr> (sample_event\<lparr>date := Some ''2024-12-02''\<rparr>)
   = Inr (sample_event\<lparr>date := Some ''2024-12-02''\<rparr>)
   \<and> isModified \<lparr>isNew = False, modifiedPaths = [''date'']\<rparr> ''date''
   \<and> Date_new (\<lambda>s. if s = ''Dec 2, 2024'' then Some 1733097600000 else None)
        (date (sample_event\<lparr>date := Some ''soon''\<rparr>)) = None
   \<and> normalize_date (\<lambda>s. if s = ''Dec 2, 2024'' then Some 1733097600000 else None)
     \<lparr>isNew = False, modifiedPaths = [''date'']\<rparr> (sample_event\<lparr>date := Some ''soon''\<rparr>)
   = Inl (Error ''Invalid date format'')"
proof -
  let ?legacy = "\<lambda>s. if s = ''Dec 2, 2024'' then Some 1733097600000 else None"
  let ?tr = "\<lparr>isNew = False, modifiedPaths = [''date'']\<rparr>"
  have m: "isModified ?tr ''date''" by (simp add: isModified_def)
  have n: "Date_new ?legacy (date (sample_event\<lparr>date := Some ''soon''\<rparr>)) = None"
    using sample_date_refused by simp
  let ?in = "sample_event\<lparr>date := Some ''Dec 2, 2024''\<rparr>"
  let ?out = "sample_event\<lparr>date := Some ''2024-12-02''\<rparr>"
  let ?bad = "sample_event\<lparr>date := Some ''soon''\<rparr>"
  note t = date_normalization [of ?legacy "''soon''" 0 ?tr ?in ?out]
  from t [THEN conjunct2, THEN conjunct2, THEN conjunct1] sample_date_saved
  have a: "Event_pre_save ?legacy ?tr ?out = Inr ?out" by (rule mp)
  note u = date_normalization [of ?legacy "''soon''" 0 ?tr ?bad ?out]
  from m n have "isModified ?tr ''date'' \<and> Date_new ?legacy (date ?bad) = None" by (rule conjI)
  with u [THEN conjunct2, THEN conjunct2, THEN conjunct2, THEN conjunct2]
  have "normalize_date ?legacy ?tr ?bad = Inl (Error ''Invalid date format'')
      \<and> (\<exists>e. Event_pre_save ?legacy ?tr ?bad = Inl e)
      \<and> (derive_slug ?tr ?bad \<noteq> Inl TypeError \<longrightarrow>
           Event_pre_save ?legacy ?tr ?bad = Inl (Error ''Invalid date format''))" by (rule mp)
  then have b: "normalize_date ?legacy ?tr ?bad = Inl (Error ''Invalid date format'')"
    by (rule conjunct1)
  from sample_date_saved a m n b show ?thesis by (intro conjI)
qed

section \<open>The length of a title\<close>

text \<open>
  C10 says that a payload whose title is longer than 100 characters is rejected. The schema
  trims the title when it is set, and the length validator sees the trimmed title: a title
  of 100 letters and a space is 101 characters long and passes.
\<close>

theorem padded_title_accepted:
  "100 < length (replicate 100 CHR ''a'' @ '' '')
   \<and> create_title (replicate 100 CHR ''a'' @ '' '') = []"
  by code_simp

text \<open>
  C10, as the schema has it. A payload whose title, once trimmed of leading and trailing white
  space, is longer than 100 characters fails validation with the message
  \<open>Title cannot exceed 100 characters\<close>, and with that message only; a title that is at most
  100 characters long once trimmed does not get that message.
\<close>

theorem title_maxlength:
  "(100 < length (trim t) \<longrightarrow> create_title t = [''Title cannot exceed 100 characters''])
   \<and> (length (trim t) \<le> 100 \<longrightarrow>
        ''Title cannot exceed 100 characters'' \<notin> set (create_title t))"
  by (auto simp: create_title_def validate_path_def set_path_def EventSchema_title_def falsy_def)

text \<open>A title of 101 letters.\<close>

theorem title_maxlength_witness:
  "100 < length (trim (replicate 101 CHR ''a''))
   \<and> create_title (replicate 101 CHR ''a'') = [''Title cannot exceed 100 characters'']"
proof -
  have a: "100 < length (trim (replicate 101 CHR ''a''))" by code_simp
  with title_maxlength [of "replicate 101 CHR ''a''"] show ?thesis by blast
qed

section \<open>The connection manager: dead entries and concurrent calls\<close>

lemmas manager_defs = connect_def connect_begin_def connect_resume_def connect_lookup_def
  connect_settle_def createConnection_def on_connected_def on_error_def on_disconnected_def
  getConnection_def isConnectionAlive_def dead_def

text \<open>
  C3 says that once the entry of a connection string is dead, after an error or a disconnect
  reported by the driver, \<open>getConnection\<close> returns nothing for it. The listener for
  \<open>disconnected\<close> only lowers the flag: after a connection, its \<open>connected\<close> event and its
  \<open>disconnected\<close> event, the entry is dead and \<open>getConnection\<close> still returns it.
\<close>

theorem disconnected_entry_returned:
  "dead ''mongodb://db'' (on_disconnected ''mongodb://db'' (on_connected ''mongodb://db''
      (fst (snd (connect ''mongodb://db'' True no_connections)))))
   \<and> getConnection ''mongodb://db'' (on_disconnected ''mongodb://db''
      (on_connected ''mongodb://db'' (fst (snd (connect ''mongodb://db'' True no_connections)))))
     = Some 0"
  by (simp add: manager_defs no_connections_def)

text \<open>
  C3, as the manager has it. After an \<open>error\<close> event for a connection string,
  \<open>getConnection\<close> returns nothing for it. A \<open>disconnected\<close> event leaves the answer of
  \<open>getConnection\<close> as it was. \<open>connect\<close> never returns a dead entry from the cache: what its
  look-up returns is not dead, and for a dead entry, when the store answers, it returns a
  connection that the driver establishes then, and caches that one.
\<close>

theorem dead_entries:
  "getConnection u (on_error u m) = None
   \<and> getConnection u (on_disconnected u m) = getConnection u m
   \<and> (\<forall>c m'. connect_lookup u m = (Some c, m') \<longrightarrow> \<not> dead u m)
   \<and> (dead u m \<longrightarrow>
        fst (connect u True (m, d)) = Inr (length (established d))
        \<and> established (snd (snd (connect u True (m, d)))) = established d @ [u]
        \<and> getConnection u (fst (snd (connect u True (m, d)))) = Some (length (established d)))"
  by (auto simp: manager_defs split: option.splits if_splits)

text \<open>The dead entry of the case above, and the connection that \<open>connect\<close> returns for it.\<close>

theorem dead_entries_witness:
  "dead ''mongodb://db'' (on_disconnected ''mongodb://db'' (on_connected ''mongodb://db''
      (fst (snd (connect ''mongodb://db'' True no_connections)))))
   \<and> fst (connect ''mongodb://db'' True
        (on_disconnected ''mongodb://db'' (on_connected ''mongodb://db''
           (fst (snd (connect ''mongodb://db'' True no_connections)))),
         snd (snd (connect ''mongodb://db'' True no_connections)))) = Inr 1"
proof -
  let ?u = "''mongodb://db''"
  let ?m = "on_disconnected ?u (on_connected ?u (fst (snd (connect ?u True no_connections))))"
  let ?d = "snd (snd (connect ?u True no_connections))"
  have a: "dead ?u ?m" by (simp add: manager_defs no_connections_def)
  have b: "length (established ?d) = 1" by (simp add: manager_defs no_connections_def)
  from dead_entries [of ?u ?m ?d] a have "fst (connect ?u True (?m, ?d)) = Inr (length (established ?d))"
    by blast
  with a b show ?thesis by simp
qed

text \<open>
  C4 says that two concurrent calls of \<open>connect\<close> for a connection string that was never
  cached establish one connection and both return it. Nothing in \<open>connect\<close> records a call
  that is waiting: on the empty manager the two calls establish two connections, the first
  returns connection 0 and the second connection 1, in whichever order they go on; the cache
  keeps connection 1 when the first call goes on first, and connection 0 otherwise.
\<close>

theorem two_connections_established:
  "fst (connect_twice ''mongodb://db'' True no_connections) = (Inr 0, Inr 1)
   \<and> established (snd (snd (connect_twice ''mongodb://db'' True no_connections)))
      = [''mongodb://db'', ''mongodb://db'']
   \<and> getConnection ''mongodb://db''
        (fst (snd (connect_twice ''mongodb://db'' True no_connections))) = Some 1
   \<and> fst (connect_twice ''mongodb://db'' False no_connections) = (Inr 0, Inr 1)
   \<and> established (snd (snd (connect_twice ''mongodb://db'' False no_connections)))
      = [''mongodb://db'', ''mongodb://db'']
   \<and> getConnection ''mongodb://db''
        (fst (snd (connect_twice ''mongodb://db'' False no_connections))) = Some 0"
  by (simp add: connect_twice_def manager_defs no_connections_def)

text \<open>
  C4, as the manager has it. For a connection string with no cached entry, two calls of
  \<open>connect\<close> that both begin before either goes on establish two connections, one each; each
  call returns its own connection, and the cache keeps that of the call that went on last,
  whichever of the two that is.
\<close>

theorem connect_twice_never_cached:
  assumes "connectionCache m u = None"
  shows "connect_twice u first_settles_first (m, d) =
    ((Inr (length (established d)), Inr (Suc (length (established d)))),
     m\<lparr>connectionCache := (connectionCache m)
         (u \<mapsto> (if first_settles_first then Suc (length (established d))
                  else length (established d)))\<rparr>,
     d\<lparr>established := established d @ [u, u]\<rparr>)"
  using assms by (cases first_settles_first) (simp_all add: connect_twice_def manager_defs)

text \<open>The empty manager has no entry for the connection string; the two orders.\<close>

theorem connect_twice_never_cached_witness:
  "connectionCache (fst no_connections) ''mongodb://db'' = None
   \<and> connect_twice ''mongodb://db'' True no_connections =
       ((Inr 0, Inr 1),
        \<lparr>connectionCache = [''mongodb://db'' \<mapsto> 1], isConnected = Map.empty\<rparr>,
        \<lparr>established = [''mongodb://db'', ''mongodb://db'']\<rparr>)
   \<and> connect_twice ''mongodb://db'' False no_connections =
       ((Inr 0, Inr 1),
        \<lparr>connectionCache = [''mongodb://db'' \<mapsto> 0], isConnected = Map.empty\<rparr>,
        \<lparr>established = [''mongodb://db'', ''mongodb://db'']\<rparr>)"
proof -
  let ?u = "''mongodb://db''"
  let ?m = "\<lparr>connectionCache = Map.empty, isConnected = Map.empty\<rparr>"
  let ?d = "\<lparr>established = []\<rparr>"
  have w: "no_connections = (?m, ?d)" by (simp add: no_connections_def)
  have a: "connectionCache ?m ?u = None" by simp
  from connect_twice_never_cached [OF a, of True ?d]
  have t: "connect_twice ?u True no_connections =
      ((Inr 0, Inr 1), \<lparr>connectionCache = [?u \<mapsto> 1], isConnected = Map.empty\<rparr>,
       \<lparr>established = [?u, ?u]\<rparr>)"
    by (simp add: w)
  from connect_twice_never_cached [OF a, of False ?d]
  have f: "connect_twice ?u False no_connections =
      ((Inr 0, Inr 1), \<lparr>connectionCache = [?u \<mapsto> 0], isConnected = Map.empty\<rparr>,
       \<lparr>established = [?u, ?u]\<rparr>)"
    by (simp add: w)
  from a t f show ?thesis by (simp add: w)
qed

end
